theory Spec2Isabelle
  imports Complex_Main
begin

section \<open>Data model of the CiSE layout\<close>

text \<open>
  Objects of the JavaScript program live in three stores (lists indexed by allocation
  order): nodes, circles and edges.  A reference to an object is its index in the store,
  so that two nodes with equal fields are still different objects, as \<open>===\<close> and
  \<open>indexOf\<close> see them.
\<close>

type_synonym nref = nat
type_synonym cref = nat
type_synonym eref = nat

text \<open>The graph that owns a node: the root graph of the manager, or a circle.\<close>

datatype graph_ref = RootGraph | CircleGraph cref

datatype error = TypeError

text \<open>
  The extension record of an on-circle node.  The class \<open>CiSEOnCircleNodeExt\<close> is not
  among the sources; only its accessors \<open>getIndex\<close>, \<open>setIndex\<close>, \<open>getAngle\<close>,
  \<open>setAngle\<close> and \<open>getInterClusterEdges\<close> are used.  Angles and coordinates are
  JavaScript numbers; they are modelled by real numbers.
\<close>

record CiSEOnCircleNodeExt =
  orderIndex :: int
  angle :: real

record CiSENode =
  ID :: "string option"
  clusterID :: "int option"
  rect_x :: real
  rect_y :: real
  rect_width :: real
  rect_height :: real
  owner :: "graph_ref option"
  child :: "cref option"
  onCircleNodeExt :: "CiSEOnCircleNodeExt option"
  nedges :: "eref list"

record CiSEEdge =
  source :: nref
  target :: nref
  isIntraCluster :: bool

text \<open>
  \<open>CiSECircle\<close> extends the graph class \<open>LGraph\<close>: \<open>parent\<close>, \<open>margin\<close>,
  \<open>gnodes\<close> and \<open>gedges\<close> are the inherited fields (parent node, margin, the nodes
  and the edges of the graph); the others are declared by the constructor of
  \<open>CiSECircle\<close>.  \<open>None\<close> stands for \<open>null\<close> in the three memoised fields, and for an
  empty slot of \<open>new Array(N)\<close> inside the order matrix.
\<close>

record CiSECircle =
  parent :: "nref option"
  margin :: real
  gnodes :: "nref list"
  gedges :: "eref list"
  intraClusterEdges :: "eref list option"
  interClusterEdges :: "eref list option"
  inNodes :: "nref list"
  outNodes :: "nref list"
  onCircleNodes :: "nref list"
  inCircleNodes :: "nref list"
  radius :: real
  orderMatrix :: "bool option list list option"
  mayBeReversed :: bool

text \<open>
  The layout with its graph manager.  \<open>rootNodes\<close> and \<open>rootEdges\<close> are the nodes and
  edges of the root graph, \<open>gmEdges\<close> is the manager's list of inter-graph edges
  (\<open>this.graphManager.edges\<close>).  \<open>step\<close> and \<open>phase\<close> hold whatever the constants
  \<open>CiSELayout.STEP_2\<close>, \<open>CiSELayout.PHASE_OTHER\<close> are; \<open>None\<close> is \<open>undefined\<close>.
\<close>

record CiSELayout =
  nodes :: "CiSENode list"
  circles :: "CiSECircle list"
  edges :: "CiSEEdge list"
  rootNodes :: "nref list"
  rootEdges :: "eref list"
  gmEdges :: "eref list"
  gmOnCircleNodes :: "nref list"
  gmNonOnCircleNodes :: "nref list"
  step :: "int option"
  phase :: "int option"

section \<open>CiSECircle.js\<close>

text \<open>
  Modelled from the spec: the base-class constant \<open>DEFAULT_GRAPH_MARGIN\<close> of the graph
  class is not among the sources; the builder only adds 15 to it.
\<close>

definition DEFAULT_GRAPH_MARGIN :: real where
  "DEFAULT_GRAPH_MARGIN = 15"

text \<open>The constructor \<open>CiSECircle(parent, graphMgr, vNode)\<close>.\<close>

definition new_CiSECircle :: "nref option \<Rightarrow> CiSECircle" where
  "new_CiSECircle p =
     \<lparr> parent = p, margin = DEFAULT_GRAPH_MARGIN, gnodes = [], gedges = [],
       intraClusterEdges = None, interClusterEdges = None,
       inNodes = [], outNodes = [], onCircleNodes = [], inCircleNodes = [],
       radius = 0, orderMatrix = None, mayBeReversed = True \<rparr>"

definition setRadius :: "real \<Rightarrow> CiSECircle \<Rightarrow> CiSECircle" where
  "setRadius r c = c\<lparr>radius := r\<rparr>"

definition getRadius :: "CiSECircle \<Rightarrow> real" where
  "getRadius c = radius c"

definition getInNodes :: "CiSECircle \<Rightarrow> nref list" where
  "getInNodes c = inNodes c"

definition getOutNodes :: "CiSECircle \<Rightarrow> nref list" where
  "getOutNodes c = outNodes c"

definition getOnCircleNodes :: "CiSECircle \<Rightarrow> nref list" where
  "getOnCircleNodes c = onCircleNodes c"

definition getInCircleNodes :: "CiSECircle \<Rightarrow> nref list" where
  "getInCircleNodes c = inCircleNodes c"

definition setMayNotBeReversed :: "CiSECircle \<Rightarrow> CiSECircle" where
  "setMayNotBeReversed c = c\<lparr>mayBeReversed := False\<rparr>"

text \<open>
  \<open>calculateParentNodeDimension\<close>: the value written to the width and the height of the
  parent node.  \<open>Number.MIN_SAFE_INTEGER\<close> is \<open>-(2^53 - 1)\<close>.
\<close>

definition MIN_SAFE_INTEGER :: real where
  "MIN_SAFE_INTEGER = - 9007199254740991"

definition maxOnCircleNodeDimension :: "CiSENode list \<Rightarrow> nref list \<Rightarrow> real" where
  "maxOnCircleNodeDimension ns on =
     fold (\<lambda>n m.
        let m1 = (if rect_width (ns ! n) > m then rect_width (ns ! n) else m)
        in (if rect_height (ns ! n) > m1 then rect_height (ns ! n) else m1))
       on MIN_SAFE_INTEGER"

definition parentNodeDimension :: "CiSENode list \<Rightarrow> CiSECircle \<Rightarrow> real" where
  "parentNodeDimension ns c =
     2 * (radius c + margin c) + maxOnCircleNodeDimension ns (onCircleNodes c)"

text \<open>
  Modelled from the spec: \<open>CiSEOnCircleNodeExt.getInterClusterEdges\<close> is not among the
  sources; by the spec the extension record holds "the list of inter-cluster edges
  incident to" the node, here the incident edges of the node that are not intra-cluster.
\<close>

definition ext_getInterClusterEdges :: "CiSENode list \<Rightarrow> CiSEEdge list \<Rightarrow> nref \<Rightarrow> eref list" where
  "ext_getInterClusterEdges ns es n = filter (\<lambda>e. \<not> isIntraCluster (es ! e)) (nedges (ns ! n))"

text \<open>
  \<open>getInterClusterEdges\<close>: on the first call the list is gathered from the out-nodes and
  stored; the stored list is returned.
\<close>

definition getInterClusterEdges ::
  "CiSENode list \<Rightarrow> CiSEEdge list \<Rightarrow> CiSECircle \<Rightarrow> eref list \<times> CiSECircle" where
  "getInterClusterEdges ns es c =
     (case interClusterEdges c of
        None \<Rightarrow>
          (let l = concat (map (ext_getInterClusterEdges ns es) (outNodes c))
           in (l, c\<lparr>interClusterEdges := Some l\<rparr>))
      | Some l \<Rightarrow> (l, c))"

text \<open>
  \<open>getIntraClusterEdges\<close>: on the first call the intra-cluster edges of the circle are
  gathered and stored in \<open>intraClusterEdges\<close>; the value returned is the field
  \<open>interClusterEdges\<close> (\<open>None\<close> when it is still \<open>null\<close>).
\<close>

definition getIntraClusterEdges ::
  "CiSEEdge list \<Rightarrow> CiSECircle \<Rightarrow> eref list option \<times> CiSECircle" where
  "getIntraClusterEdges es c =
     (let c' = (case intraClusterEdges c of
                  None \<Rightarrow> c\<lparr>intraClusterEdges := Some (filter (\<lambda>e. isIntraCluster (es ! e)) (gedges c))\<rparr>
                | Some l \<Rightarrow> c)
      in (interClusterEdges c', c'))"

text \<open>
  \<open>computeOrderMatrix\<close>.  The matrix starts as \<open>N\<close> rows of \<open>N\<close> empty slots; the two
  nested loops over \<open>i\<close> and \<open>j\<close> write the cells \<open>(i, j)\<close> and \<open>(j, i)\<close> for \<open>j > i\<close>.
  \<open>IGeometry.TWO_PI\<close> and \<open>Math.PI\<close> are \<open>2 * pi\<close> and \<open>pi\<close>.
\<close>

definition setCell :: "nat \<Rightarrow> nat \<Rightarrow> bool \<Rightarrow> bool option list list \<Rightarrow> bool option list list" where
  "setCell i j v m = m[i := (m ! i)[j := Some v]]"

definition orderCell :: "real list \<Rightarrow> nat \<Rightarrow> nat \<Rightarrow> bool option list list \<Rightarrow> bool option list list" where
  "orderCell as i j m =
     (if j > i then
        (let angleDiff = as ! j - as ! i;
             angleDiff = (if angleDiff < 0 then angleDiff + 2 * pi else angleDiff)
         in if angleDiff \<le> pi
            then setCell j i False (setCell i j True m)
            else setCell j i True (setCell i j False m))
      else m)"

definition orderRow :: "real list \<Rightarrow> nat \<Rightarrow> bool option list list \<Rightarrow> bool option list list" where
  "orderRow as i m = fold (orderCell as i) [0 ..< length as] m"

definition orderMatrixOf :: "real list \<Rightarrow> bool option list list" where
  "orderMatrixOf as =
     fold (orderRow as) [0 ..< length as] (replicate (length as) (replicate (length as) None))"

definition nodeAngle :: "CiSENode list \<Rightarrow> nref \<Rightarrow> real" where
  "nodeAngle ns n = angle (the (onCircleNodeExt (ns ! n)))"

definition computeOrderMatrix :: "CiSENode list \<Rightarrow> CiSECircle \<Rightarrow> CiSECircle" where
  "computeOrderMatrix ns c =
     c\<lparr>orderMatrix := Some (orderMatrixOf (map (nodeAngle ns) (onCircleNodes c)))\<rparr>"

text \<open>
  The methods of \<open>CiSECircle.js\<close> that may write to a circle, as operations on it, and
  the sort of the on-circle nodes by their circular index that \<open>doStep1\<close> does in
  place (\<open>clusteredNodes.sort\<close>, a stable sort).  \<open>CalculateParentNodeDimension\<close> writes
  to the parent node only.
\<close>

datatype circle_op =
    SetRadius real
  | SetMayNotBeReversed
  | CalculateParentNodeDimension
  | GetInterClusterEdges
  | GetIntraClusterEdges
  | ComputeOrderMatrix
  | SortOnCircleNodes

fun circle_apply :: "CiSENode list \<Rightarrow> CiSEEdge list \<Rightarrow> circle_op \<Rightarrow> CiSECircle \<Rightarrow> CiSECircle" where
  "circle_apply ns es (SetRadius r) c = setRadius r c"
| "circle_apply ns es SetMayNotBeReversed c = setMayNotBeReversed c"
| "circle_apply ns es CalculateParentNodeDimension c = c"
| "circle_apply ns es GetInterClusterEdges c = snd (getInterClusterEdges ns es c)"
| "circle_apply ns es GetIntraClusterEdges c = snd (getIntraClusterEdges es c)"
| "circle_apply ns es ComputeOrderMatrix c = computeOrderMatrix ns c"
| "circle_apply ns es SortOnCircleNodes c =
     c\<lparr>onCircleNodes :=
         sort_key (\<lambda>n. orderIndex (the (onCircleNodeExt (ns ! n)))) (onCircleNodes c)\<rparr>"

section \<open>CiSELayout.js: the circular mean of reorderIncidentEdges\<close>

text \<open>
  \<open>edgeIndices.sort()\<close> is called without a comparison function, so JavaScript compares
  the elements by their string conversions, code unit by code unit.  A string is
  modelled as the list of its code units (48 to 57 for the digits, 45 for the minus sign).
\<close>

type_synonym js_string = "nat list"

function nat_toString :: "nat \<Rightarrow> js_string" where
  "nat_toString n = (if n < 10 then [48 + n] else nat_toString (n div 10) @ [48 + n mod 10])"
  by pat_completeness auto
termination
  by (relation "measure id") auto

definition js_toString :: "int \<Rightarrow> js_string" where
  "js_toString i = (if i < 0 then 45 # nat_toString (nat (- i)) else nat_toString (nat i))"

fun js_string_less :: "js_string \<Rightarrow> js_string \<Rightarrow> bool" where
  "js_string_less [] [] = False"
| "js_string_less [] (y # ys) = True"
| "js_string_less (x # xs) [] = False"
| "js_string_less (x # xs) (y # ys) = (x < y \<or> (x = y \<and> js_string_less xs ys))"

text \<open>The default sort is stable: an element goes behind the elements that are not greater.\<close>

fun js_sort_insert :: "int \<Rightarrow> int list \<Rightarrow> int list" where
  "js_sort_insert x [] = [x]"
| "js_sort_insert x (y # ys) =
     (if js_string_less (js_toString y) (js_toString x) then y # js_sort_insert x ys
      else x # y # ys)"

definition js_sort :: "int list \<Rightarrow> int list" where
  "js_sort xs = foldr js_sort_insert xs []"

text \<open>
  The index that an inter-cluster edge contributes for the circle \<open>c\<close>: the circular
  index of its end on that circle, \<open>-1\<close> when neither end is owned by the circle.
\<close>

definition nodeIndex :: "CiSENode list \<Rightarrow> nref \<Rightarrow> int" where
  "nodeIndex ns n = orderIndex (the (onCircleNodeExt (ns ! n)))"

definition edgeIndexOf :: "CiSENode list \<Rightarrow> cref \<Rightarrow> CiSEEdge \<Rightarrow> int" where
  "edgeIndexOf ns c e =
     (if owner (ns ! source e) = Some (CircleGraph c) then nodeIndex ns (source e)
      else if owner (ns ! target e) = Some (CircleGraph c) then nodeIndex ns (target e)
      else - 1)"

definition gatherEdgeIndices :: "CiSENode list \<Rightarrow> CiSEEdge list \<Rightarrow> cref \<Rightarrow> eref list \<Rightarrow> int list" where
  "gatherEdgeIndices ns es c ciseEdges = js_sort (map (\<lambda>e. edgeIndexOf ns c (es ! e)) ciseEdges)"

text \<open>
  The variables of the loop that looks for the largest gap.  \<open>edgeIndex\<close> is \<open>null\<close>
  before the first element; \<open>prevEdgeIndex\<close> is the value \<open>edgeIndex\<close> had when the
  iteration began.
\<close>

record gap_scan =
  edgeIndex :: "int option"
  firstEdgeIndex :: int
  edgeIndexPos :: int
  largestGap :: int
  indexLargestGapStart :: int

definition gapInit :: gap_scan where
  "gapInit = \<lparr> edgeIndex = None, firstEdgeIndex = - 1, edgeIndexPos = - 1,
               largestGap = - 1, indexLargestGapStart = - 1 \<rparr>"

definition gapStep :: "int \<Rightarrow> gap_scan \<Rightarrow> gap_scan" where
  "gapStep x g =
     (let prevEdgeIndex = edgeIndex g;
          g1 = g\<lparr>edgeIndex := Some x, edgeIndexPos := edgeIndexPos g + 1\<rparr>
      in case prevEdgeIndex of
           Some p \<Rightarrow>
             (let gap = x - p
              in if gap > largestGap g1
                 then g1\<lparr>largestGap := gap, indexLargestGapStart := edgeIndexPos g1 - 1\<rparr>
                 else g1)
         | None \<Rightarrow> g1\<lparr>firstEdgeIndex := x\<rparr>)"

text \<open>The gap from the last index round to the first; \<open>null\<close> counts as 0 in arithmetic.\<close>

definition wrapGap :: "int \<Rightarrow> gap_scan \<Rightarrow> gap_scan" where
  "wrapGap N g =
     (let lastIndex = (case edgeIndex g of None \<Rightarrow> 0 | Some x \<Rightarrow> x)
      in if firstEdgeIndex g \<noteq> - 1 \<and> firstEdgeIndex g + N - lastIndex > largestGap g
         then g\<lparr>largestGap := firstEdgeIndex g + N - lastIndex,
                indexLargestGapStart := edgeIndexPos g\<rparr>
         else g)"

definition adjustIndices :: "int \<Rightarrow> gap_scan \<Rightarrow> int list \<Rightarrow> int list" where
  "adjustIndices N g xs =
     (if largestGap g > 0
      then take (nat (indexLargestGapStart g + 1)) xs
           @ map (\<lambda>x. x - N) (drop (nat (indexLargestGapStart g + 1)) xs)
      else xs)"

text \<open>
  The average of the adjusted indices, from the list as it is after \<open>sort()\<close>.  The
  quotient of two integers is a rational number; \<open>0 / 0\<close> is \<open>NaN\<close>, here \<open>None\<close>.
\<close>

definition averageIndex :: "int \<Rightarrow> int list \<Rightarrow> rat option" where
  "averageIndex N xs =
     (let g = wrapGap N (fold gapStep xs gapInit);
          ys = adjustIndices N g xs;
          totalIndex = fold (\<lambda>x t. t + x) ys 0;
          edgeCount = length xs
      in if edgeCount = 0 then None
         else (let a = of_int totalIndex / of_nat edgeCount
               in Some (if a < 0 then a + of_int N else a)))"

text \<open>The value stored in \<open>indexMapping\<close> for a reduced edge, from the gathered indices.\<close>

definition representativeIndex :: "int \<Rightarrow> int list \<Rightarrow> rat option" where
  "representativeIndex N indices = averageIndex N (js_sort indices)"

section \<open>Notions used to state the properties of the order matrix\<close>




text \<open>
  The specification's side: an angle difference normalized into the interval from 0
  (included) to \<open>2 * pi\<close> (excluded).
\<close>

definition normalizeAngle :: "real \<Rightarrow> real" where
  "normalizeAngle d = d - 2 * pi * of_int \<lfloor>d / (2 * pi)\<rfloor>"



section \<open>CiSELayout.js: convertToClusteredGraph\<close>

text \<open>
  The input: the nodes of the host graph with their id, position and dimensions, the
  edges with the ids of their ends, and the clusters as lists of node ids.
\<close>

record CyNode =
  cy_id :: string
  cy_x :: real
  cy_y :: real
  cy_w :: real
  cy_h :: real

record CyEdge =
  cy_source :: string
  cy_target :: string

text \<open>
  The constructor of the layout leaves an empty graph manager with its root graph;
  the two arguments are the values of \<open>CiSELayout.STEP_NOT_STARTED\<close> and
  \<open>CiSELayout.PHASE_NOT_STARTED\<close>.
\<close>

definition new_CiSELayout :: "int option \<Rightarrow> int option \<Rightarrow> CiSELayout" where
  "new_CiSELayout st ph =
     \<lparr> nodes = [], circles = [], edges = [], rootNodes = [], rootEdges = [], gmEdges = [],
       gmOnCircleNodes = [], gmNonOnCircleNodes = [], step = st, phase = ph \<rparr>"

text \<open>
  Modelled from the spec: the class \<open>CiSENode\<close> is not among the sources.  A new node
  has the given rectangle (all 0 for \<open>newNode(null)\<close>), no id, no cluster id, no owner,
  no child and no incident edge; \<open>setAsOnCircleNode\<close> gives it a new extension record,
  whose index and angle are unset (\<open>-1\<close>) until Step 1.
\<close>

definition newNode :: "real \<Rightarrow> real \<Rightarrow> real \<Rightarrow> real \<Rightarrow> CiSENode" where
  "newNode x y w h =
     \<lparr> ID = None, clusterID = None, rect_x = x, rect_y = y, rect_width = w, rect_height = h,
       owner = None, child = None, onCircleNodeExt = None, nedges = [] \<rparr>"

definition newCiSEOnCircleNode :: "real \<Rightarrow> real \<Rightarrow> real \<Rightarrow> real \<Rightarrow> CiSENode" where
  "newCiSEOnCircleNode x y w h =
     (newNode x y w h)\<lparr>onCircleNodeExt := Some \<lparr> orderIndex = - 1, angle = - 1 \<rparr>\<rparr>"

definition newEdge :: "nref \<Rightarrow> nref \<Rightarrow> CiSEEdge" where
  "newEdge s t = \<lparr> source = s, target = t, isIntraCluster = False \<rparr>"

text \<open>A loop whose body may throw: the first exception ends it.\<close>

fun forEachE :: "('a \<Rightarrow> 's \<Rightarrow> error + 's) \<Rightarrow> 'a list \<Rightarrow> 's \<Rightarrow> error + 's" where
  "forEachE f [] s = Inr s"
| "forEachE f (x # xs) s = (case f x s of Inl e \<Rightarrow> Inl e | Inr s' \<Rightarrow> forEachE f xs s')"

text \<open>The lookup table \<open>idToLNode\<close> together with the layout under construction.\<close>

type_synonym builder = "(string \<rightharpoonup> nref) \<times> CiSELayout"

text \<open>
  The class \<open>HashMap\<close> of the layout library is not among the sources.  It keeps its
  entries as properties of a plain object, and \<open>put\<close> stores a value only when the
  object holds nothing under the key yet.  So the first node with an id stays, and a node
  whose id is the name of a property that every object inherits is never stored: \<open>get\<close>
  of such an id gives the inherited value, which is no node, and the call of
  \<open>layoutDimensions\<close> on it throws as it does on \<open>undefined\<close>.
\<close>

definition objectPrototypeKeys :: "string list" where
  "objectPrototypeKeys =
     [''constructor'', ''hasOwnProperty'', ''isPrototypeOf'', ''propertyIsEnumerable'',
      ''toLocaleString'', ''toString'', ''valueOf'', ''__proto__'', ''__defineGetter__'',
      ''__defineSetter__'', ''__lookupGetter__'', ''__lookupSetter__'']"

definition hashMapPut :: "string \<Rightarrow> 'v \<Rightarrow> (string \<rightharpoonup> 'v) \<Rightarrow> (string \<rightharpoonup> 'v)" where
  "hashMapPut k v m = (if m k \<noteq> None \<or> k \<in> set objectPrototypeKeys then m else m(k \<mapsto> v))"

definition idToCytoscapeNode :: "CyNode list \<Rightarrow> (string \<rightharpoonup> CyNode)" where
  "idToCytoscapeNode ns = fold (\<lambda>n. hashMapPut (cy_id n) n) ns Map.empty"

text \<open>
  The first lines of the body of the loop over the clusters: the cluster node, with
  \<open>setClusterId(i)\<close>, is added to the root graph, and the new circle is linked to it
  and gets its larger margin.
\<close>

definition addClusterNode :: "int \<Rightarrow> CiSELayout \<Rightarrow> CiSELayout" where
  "addClusterNode i s =
     (let clusterNode = (newNode 0 0 0 0)\<lparr>clusterID := Some i, owner := Some RootGraph,
                                           child := Some (length (circles s))\<rparr>;
          circle = new_CiSECircle (Some (length (nodes s)));
          circle = circle\<lparr>margin := margin circle + 15\<rparr>
      in s\<lparr>nodes := nodes s @ [clusterNode],
            rootNodes := rootNodes s @ [length (nodes s)],
            circles := circles s @ [circle]\<rparr>)"

text \<open>
  The body of \<open>clusters[i].forEach\<close>, for the circle \<open>c\<close> of the cluster \<open>i\<close>.  An id
  under which the map holds no node makes \<open>cytoNode\<close> undefined (or an inherited value
  that is no node), and the call of \<open>layoutDimensions\<close> on it throws.
\<close>

definition addMember :: "(string \<rightharpoonup> CyNode) \<Rightarrow> int \<Rightarrow> cref \<Rightarrow> string \<Rightarrow> builder \<Rightarrow> error + builder" where
  "addMember cyMap i c nodeID b =
     (case b of (m, s) \<Rightarrow>
       (case cyMap nodeID of
          None \<Rightarrow> Inl TypeError
        | Some cytoNode \<Rightarrow>
            (let n = length (nodes s);
                 ciseNode = (newCiSEOnCircleNode (cy_x cytoNode - cy_w cytoNode / 2)
                               (cy_y cytoNode - cy_h cytoNode / 2) (cy_w cytoNode) (cy_h cytoNode))
                            \<lparr>ID := Some nodeID, clusterID := Some i, owner := Some (CircleGraph c)\<rparr>;
                 circle = circles s ! c;
                 circle = circle\<lparr>onCircleNodes := onCircleNodes circle @ [n],
                                 gnodes := gnodes circle @ [n],
                                 inNodes := inNodes circle @ [n]\<rparr>
             in Inr (m(nodeID \<mapsto> n),
                     s\<lparr>nodes := nodes s @ [ciseNode], circles := (circles s)[c := circle]\<rparr>))))"

definition addCluster :: "(string \<rightharpoonup> CyNode) \<Rightarrow> nat \<times> string list \<Rightarrow> builder \<Rightarrow> error + builder" where
  "addCluster cyMap ic b =
     (case ic of (i, cluster) \<Rightarrow>
       (case b of (m, s) \<Rightarrow>
          forEachE (addMember cyMap (int i) (length (circles s))) cluster
            (m, addClusterNode (int i) s)))"

text \<open>The body of the loop over the input nodes that adds the unclustered ones.\<close>

definition addUnclustered :: "string list list \<Rightarrow> CyNode \<Rightarrow> builder \<Rightarrow> builder" where
  "addUnclustered clusters cytoNode b =
     (case b of (m, s) \<Rightarrow>
       (if \<exists>cluster \<in> set clusters. cy_id cytoNode \<in> set cluster then (m, s)
        else
          (let n = length (nodes s);
               node = (newNode (cy_x cytoNode - cy_w cytoNode / 2)
                         (cy_y cytoNode - cy_h cytoNode / 2) (cy_w cytoNode) (cy_h cytoNode))
                      \<lparr>clusterID := Some (- 1), ID := Some (cy_id cytoNode), owner := Some RootGraph\<rparr>
           in (m(cy_id cytoNode \<mapsto> n),
               s\<lparr>nodes := nodes s @ [node], rootNodes := rootNodes s @ [n]\<rparr>))))"

text \<open>
  Modelled from the spec: the graph and graph-manager classes are not among the sources.
  By the spec an intra-cluster edge is "added to the owning circle" and an inter-cluster
  edge is "added at the top level".  Adding an edge to a graph appends it to the edges of
  the graph and to the incident edges of its two ends.  The graph manager puts an edge
  whose ends have the same owner into that graph, and any other edge into its own list
  of inter-graph edges.  A missing owner makes the call throw.
\<close>

definition addIncident :: "eref \<Rightarrow> nref \<Rightarrow> CiSENode list \<Rightarrow> CiSENode list" where
  "addIncident e n ns = ns[n := (ns ! n)\<lparr>nedges := nedges (ns ! n) @ [e]\<rparr>]"

definition graph_add_edge :: "graph_ref \<Rightarrow> eref \<Rightarrow> nref \<Rightarrow> nref \<Rightarrow> CiSELayout \<Rightarrow> CiSELayout" where
  "graph_add_edge g e sn tn s =
     (let s1 = (case g of
                  RootGraph \<Rightarrow> s\<lparr>rootEdges := rootEdges s @ [e]\<rparr>
                | CircleGraph c \<Rightarrow>
                    s\<lparr>circles := (circles s)[c := (circles s ! c)\<lparr>gedges := gedges (circles s ! c) @ [e]\<rparr>]\<rparr>)
      in s1\<lparr>nodes := (if tn = sn then addIncident e sn (nodes s1)
                       else addIncident e tn (addIncident e sn (nodes s1)))\<rparr>)"

definition gm_add_edge :: "eref \<Rightarrow> nref \<Rightarrow> nref \<Rightarrow> CiSELayout \<Rightarrow> error + CiSELayout" where
  "gm_add_edge e sn tn s =
     (case (owner (nodes s ! sn), owner (nodes s ! tn)) of
        (Some sourceGraph, Some targetGraph) \<Rightarrow>
          (if sourceGraph = targetGraph then Inr (graph_add_edge sourceGraph e sn tn s)
           else Inr (s\<lparr>gmEdges := gmEdges s @ [e],
                       nodes := addIncident e tn (addIncident e sn (nodes s))\<rparr>))
      | _ \<Rightarrow> Inl TypeError)"

text \<open>
  The body of the loop over the input edges.  An end that \<open>idToLNode\<close> does not know is
  undefined, and the call of \<open>getClusterId\<close> on it throws.
\<close>

definition addEdge :: "CyEdge \<Rightarrow> builder \<Rightarrow> error + builder" where
  "addEdge e b =
     (case b of (m, s) \<Rightarrow>
       (case (m (cy_source e), m (cy_target e)) of
          (Some sourceNode, Some targetNode) \<Rightarrow>
            (let sourceClusterID = clusterID (nodes s ! sourceNode);
                 targetClusterID = clusterID (nodes s ! targetNode)
             in if sourceNode = targetNode then Inr (m, s)
                else
                  (let k = length (edges s);
                       ciseEdge = newEdge sourceNode targetNode
                   in if sourceClusterID = targetClusterID \<and> sourceClusterID \<noteq> Some (- 1)
                         \<and> targetClusterID \<noteq> Some (- 1)
                      then (case owner (nodes s ! sourceNode) of
                              None \<Rightarrow> Inl TypeError
                            | Some g \<Rightarrow>
                                Inr (m, graph_add_edge g k sourceNode targetNode
                                          (s\<lparr>edges := edges s @ [ciseEdge\<lparr>isIntraCluster := True\<rparr>]\<rparr>)))
                      else (case gm_add_edge k sourceNode targetNode
                                   (s\<lparr>edges := edges s @ [ciseEdge\<lparr>isIntraCluster := False\<rparr>]\<rparr>) of
                              Inl err \<Rightarrow> Inl err
                            | Inr s' \<Rightarrow> Inr (m, s'))))
        | _ \<Rightarrow> Inl TypeError))"

text \<open>
  \<open>getAllNodes\<close> of the graph manager: the nodes of the root graph, then those of each
  circle.  The two lists of the manager are the on-circle nodes and the others.
\<close>

definition getAllNodes :: "CiSELayout \<Rightarrow> nref list" where
  "getAllNodes s = rootNodes s @ concat (map gnodes (circles s))"

definition populateReferences :: "CiSELayout \<Rightarrow> CiSELayout" where
  "populateReferences s =
     s\<lparr>gmOnCircleNodes := filter (\<lambda>n. onCircleNodeExt (nodes s ! n) \<noteq> None) (getAllNodes s),
       gmNonOnCircleNodes := filter (\<lambda>n. onCircleNodeExt (nodes s ! n) = None) (getAllNodes s)\<rparr>"

text \<open>
  The out-nodes: an end of an inter-graph edge with a cluster id other than \<open>-1\<close> is
  taken out of the in-nodes of its owner (at its first position, by \<open>indexOf\<close> and
  \<open>splice\<close>) and appended to the out-nodes, unless it is no longer among the in-nodes.
  Only a circle has in-nodes: for any other owner the call throws.
\<close>

definition moveToOutNodes :: "nref \<Rightarrow> CiSELayout \<Rightarrow> error + CiSELayout" where
  "moveToOutNodes n s =
     (case owner (nodes s ! n) of
        Some (CircleGraph c) \<Rightarrow>
          (let circle = circles s ! c
           in if n \<in> set (inNodes circle)
              then Inr (s\<lparr>circles := (circles s)[c := circle\<lparr>inNodes := remove1 n (inNodes circle),
                                                              outNodes := outNodes circle @ [n]\<rparr>]\<rparr>)
              else Inr s)
      | _ \<Rightarrow> Inl TypeError)"

definition determineOutNodes :: "eref \<Rightarrow> CiSELayout \<Rightarrow> error + CiSELayout" where
  "determineOutNodes e s =
     (let sourceNode = source (edges s ! e);
          targetNode = target (edges s ! e);
          sourceClusterID = clusterID (nodes s ! sourceNode);
          targetClusterID = clusterID (nodes s ! targetNode)
      in case (if sourceClusterID \<noteq> Some (- 1) then moveToOutNodes sourceNode s else Inr s) of
           Inl err \<Rightarrow> Inl err
         | Inr s1 \<Rightarrow>
             (if targetClusterID \<noteq> Some (- 1) then moveToOutNodes targetNode s1 else Inr s1))"

definition convertToClusteredGraph ::
  "CyNode list \<Rightarrow> CyEdge list \<Rightarrow> string list list \<Rightarrow> CiSELayout \<Rightarrow> error + builder" where
  "convertToClusteredGraph ns es clusters s =
     (case forEachE (addCluster (idToCytoscapeNode ns)) (enumerate 0 clusters) (Map.empty, s) of
        Inl err \<Rightarrow> Inl err
      | Inr b1 \<Rightarrow>
          (case forEachE addEdge es (fold (addUnclustered clusters) ns b1) of
             Inl err \<Rightarrow> Inl err
           | Inr (idToLNode, s2) \<Rightarrow>
               (case forEachE determineOutNodes (gmEdges s2) (populateReferences s2) of
                  Inl err \<Rightarrow> Inl err
                | Inr s3 \<Rightarrow> Inr (idToLNode, s3))))"

section \<open>Invariants of the cluster graph under construction\<close>

text \<open>
  A node that an edge may end at: a node of the root graph with the cluster id \<open>-1\<close>, or
  a node owned by a circle and listed among the on-circle nodes of that circle.
\<close>

definition resolvable :: "CiSELayout \<Rightarrow> nref \<Rightarrow> bool" where
  "resolvable s k =
     (k < length (nodes s) \<and>
      ((owner (nodes s ! k) = Some RootGraph \<and> clusterID (nodes s ! k) = Some (- 1)) \<or>
       (\<exists>c<length (circles s). owner (nodes s ! k) = Some (CircleGraph c)
            \<and> k \<in> set (onCircleNodes (circles s ! c)))))"

text \<open>
  Every circle: its in-nodes and out-nodes are duplicate-free, disjoint and make up the
  on-circle nodes, and each on-circle node of the circle \<open>c\<close> is owned by it and has the
  cluster id \<open>c\<close>.
\<close>

definition circlesInv :: "CiSELayout \<Rightarrow> bool" where
  "circlesInv s =
     (\<forall>c<length (circles s).
        distinct (inNodes (circles s ! c)) \<and> distinct (outNodes (circles s ! c))
        \<and> set (inNodes (circles s ! c)) \<inter> set (outNodes (circles s ! c)) = {}
        \<and> set (inNodes (circles s ! c)) \<union> set (outNodes (circles s ! c))
            = set (onCircleNodes (circles s ! c))
        \<and> (\<forall>k \<in> set (onCircleNodes (circles s ! c)).
              k < length (nodes s) \<and> clusterID (nodes s ! k) = Some (int c)
              \<and> owner (nodes s ! k) = Some (CircleGraph c)))"

text \<open>Every node with a child circle \<open>c\<close>: it has no id, and its cluster id is \<open>c\<close>.\<close>

definition placeholdersInv :: "CiSELayout \<Rightarrow> bool" where
  "placeholdersInv s =
     (\<forall>n<length (nodes s). \<forall>c. child (nodes s ! n) = Some c \<longrightarrow>
        ID (nodes s ! n) = None \<and> clusterID (nodes s ! n) = Some (int c)
        \<and> c < length (circles s) \<and> parent (circles s ! c) = Some n)"

definition tableInv :: "(string \<rightharpoonup> nref) \<Rightarrow> CiSELayout \<Rightarrow> bool" where
  "tableInv m s = (\<forall>i k. m i = Some k \<longrightarrow> resolvable s k)"

text \<open>
  Every edge: its ends are resolvable, its flag says whether the ends have the same
  cluster id other than \<open>-1\<close>, and an inter-cluster edge between nodes of different
  owners is in the manager's list of inter-graph edges.
\<close>

definition edgesInv :: "CiSELayout \<Rightarrow> bool" where
  "edgesInv s =
     ((\<forall>j \<in> set (gmEdges s). j < length (edges s)) \<and>
      (\<forall>j<length (edges s).
         resolvable s (source (edges s ! j)) \<and> resolvable s (target (edges s ! j))
         \<and> (isIntraCluster (edges s ! j) \<longleftrightarrow>
              clusterID (nodes s ! source (edges s ! j)) = clusterID (nodes s ! target (edges s ! j))
              \<and> clusterID (nodes s ! source (edges s ! j)) \<noteq> Some (- 1))
         \<and> (\<not> isIntraCluster (edges s ! j)
              \<and> owner (nodes s ! source (edges s ! j)) \<noteq> owner (nodes s ! target (edges s ! j))
              \<longrightarrow> j \<in> set (gmEdges s))))"

definition builderInv :: "builder \<Rightarrow> bool" where
  "builderInv b = (case b of (m, s) \<Rightarrow> circlesInv s \<and> placeholdersInv s \<and> tableInv m s \<and> edgesInv s)"

text \<open>While the nodes are added, there is no edge yet.\<close>

definition nodesInv :: "builder \<Rightarrow> bool" where
  "nodesInv b = (case b of (m, s) \<Rightarrow>
     circlesInv s \<and> placeholdersInv s \<and> tableInv m s \<and> edges s = [] \<and> gmEdges s = [])"

text \<open>
  What the later phases leave as it is: the number of nodes and circles, the id, cluster
  id, owner and child of every node, the parent and the on-circle nodes of every circle;
  and the in-nodes and out-nodes of every circle.
\<close>

definition sameStatics :: "CiSELayout \<Rightarrow> CiSELayout \<Rightarrow> bool" where
  "sameStatics s s' =
     (length (nodes s') = length (nodes s) \<and> length (circles s') = length (circles s)
      \<and> (\<forall>k. ID (nodes s' ! k) = ID (nodes s ! k)
              \<and> clusterID (nodes s' ! k) = clusterID (nodes s ! k)
              \<and> owner (nodes s' ! k) = owner (nodes s ! k)
              \<and> child (nodes s' ! k) = child (nodes s ! k))
      \<and> (\<forall>c. parent (circles s' ! c) = parent (circles s ! c)
              \<and> onCircleNodes (circles s' ! c) = onCircleNodes (circles s ! c)))"

definition sameInOut :: "CiSELayout \<Rightarrow> CiSELayout \<Rightarrow> bool" where
  "sameInOut s s' =
     (\<forall>c. inNodes (circles s' ! c) = inNodes (circles s ! c)
          \<and> outNodes (circles s' ! c) = outNodes (circles s ! c))"

text \<open>The node \<open>n\<close> is not (or no longer) among the in-nodes of the circle that owns it.\<close>

definition notInNode :: "CiSELayout \<Rightarrow> nref \<Rightarrow> bool" where
  "notInNode s n =
     (\<forall>d. owner (nodes s ! n) = Some (CircleGraph d) \<longrightarrow> n \<notin> set (inNodes (circles s ! d)))"

section \<open>A worked example of the builder\<close>

text \<open>
  Four input nodes \<open>a\<close>, \<open>b\<close>, \<open>c\<close>, \<open>d\<close> of width 4 and height 6 at the position
  (10, 20); the clusters \<open>{a, b}\<close> and \<open>{c}\<close>; the edges \<open>a-b\<close>, \<open>b-c\<close>, \<open>c-d\<close> and
  the self-loop \<open>a-a\<close>.
\<close>

definition exCyNode :: "string \<Rightarrow> CyNode" where
  "exCyNode i = \<lparr> cy_id = i, cy_x = 10, cy_y = 20, cy_w = 4, cy_h = 6 \<rparr>"

definition exInputNodes :: "CyNode list" where
  "exInputNodes = [exCyNode ''a'', exCyNode ''b'', exCyNode ''c'', exCyNode ''d'']"

definition exInputEdges :: "CyEdge list" where
  "exInputEdges =
     [\<lparr>cy_source = ''a'', cy_target = ''b''\<rparr>, \<lparr>cy_source = ''b'', cy_target = ''c''\<rparr>,
      \<lparr>cy_source = ''c'', cy_target = ''d''\<rparr>, \<lparr>cy_source = ''a'', cy_target = ''a''\<rparr>]"

definition exClusters :: "string list list" where
  "exClusters = [[''a'', ''b''], [''c'']]"

text \<open>
  The layout that the builder makes of it: the nodes 0 and 3 are the cluster nodes, the
  nodes 1, 2 and 4 are \<open>a\<close>, \<open>b\<close> and \<open>c\<close> on their circles, the node 5 is \<open>d\<close>.
\<close>

definition exPlaceholder :: "int \<Rightarrow> cref \<Rightarrow> CiSENode" where
  "exPlaceholder i c =
     \<lparr> ID = None, clusterID = Some i, rect_x = 0, rect_y = 0, rect_width = 0, rect_height = 0,
       owner = Some RootGraph, child = Some c, onCircleNodeExt = None, nedges = [] \<rparr>"

definition exMember :: "string \<Rightarrow> int \<Rightarrow> cref \<Rightarrow> eref list \<Rightarrow> CiSENode" where
  "exMember i cl c es =
     \<lparr> ID = Some i, clusterID = Some cl, rect_x = 8, rect_y = 17, rect_width = 4, rect_height = 6,
       owner = Some (CircleGraph c), child = None,
       onCircleNodeExt = Some \<lparr> orderIndex = - 1, angle = - 1 \<rparr>, nedges = es \<rparr>"

definition exUnclustered :: "string \<Rightarrow> eref list \<Rightarrow> CiSENode" where
  "exUnclustered i es =
     \<lparr> ID = Some i, clusterID = Some (- 1), rect_x = 8, rect_y = 17, rect_width = 4,
       rect_height = 6, owner = Some RootGraph, child = None, onCircleNodeExt = None,
       nedges = es \<rparr>"

definition exCircle :: "nref \<Rightarrow> nref list \<Rightarrow> eref list \<Rightarrow> nref list \<Rightarrow> nref list \<Rightarrow> CiSECircle" where
  "exCircle p ns es ins outs =
     \<lparr> parent = Some p, margin = 30, gnodes = ns, gedges = es,
       intraClusterEdges = None, interClusterEdges = None,
       inNodes = ins, outNodes = outs, onCircleNodes = ns, inCircleNodes = [],
       radius = 0, orderMatrix = None, mayBeReversed = True \<rparr>"

definition exLayout :: CiSELayout where
  "exLayout =
     \<lparr> nodes = [exPlaceholder 0 0, exMember ''a'' 0 0 [0], exMember ''b'' 0 0 [0, 1],
                exPlaceholder 1 1, exMember ''c'' 1 1 [1, 2],
                exUnclustered ''d'' [2]],
       circles = [exCircle 0 [1, 2] [0] [1] [2], exCircle 3 [4] [] [] [4]],
       edges = [\<lparr>source = 1, target = 2, isIntraCluster = True\<rparr>,
                \<lparr>source = 2, target = 4, isIntraCluster = False\<rparr>,
                \<lparr>source = 4, target = 5, isIntraCluster = False\<rparr>],
       rootNodes = [0, 3, 5], rootEdges = [], gmEdges = [1, 2],
       gmOnCircleNodes = [1, 2, 4], gmNonOnCircleNodes = [0, 3, 5],
       step = None, phase = None \<rparr>"

section \<open>CiSELayout.js: doStep2\<close>

text \<open>
  The nodes of the spring embedder (\<open>CoSENode\<close>, of another library): location,
  dimensions and the \<open>id\<close> that \<open>doStep2\<close> sets.  A reduced edge is the pair of the
  indices of its ends in \<open>newCoSENodes\<close>, with the list that \<open>coseEdgeToCiseEdges\<close>
  holds for it.
\<close>

record CoSENode =
  cose_x :: real
  cose_y :: real
  cose_width :: real
  cose_height :: real
  cose_id :: nat

type_synonym cose_edge = "(nat \<times> nat) \<times> eref list"

text \<open>The body of the loop that creates the nodes of the embedder.\<close>

definition newCoSENode :: "CiSENode list \<Rightarrow> nat \<times> nref \<Rightarrow> CoSENode" where
  "newCoSENode ns p =
     (case p of (i, n) \<Rightarrow>
       (let ciseNode = ns ! n;
            newNode = \<lparr> cose_x = rect_x ciseNode, cose_y = rect_y ciseNode,
                        cose_width = rect_width ciseNode, cose_height = rect_height ciseNode,
                        cose_id = i \<rparr>;
            newNode = (if child ciseNode \<noteq> None
                       then newNode\<lparr>cose_width := 1.2 * cose_width newNode,
                                    cose_height := 1.2 * cose_height newNode\<rparr>
                       else newNode)
        in newNode))"

text \<open>
  \<open>ciseNodeToCoseNode\<close>, as the index in \<open>newCoSENodes\<close> of the node that the map holds
  for a node of the layout: a later \<open>put\<close> for the same node replaces the earlier one.
\<close>

definition putCoseNode :: "nat \<times> nref \<Rightarrow> (nref \<rightharpoonup> nat) \<Rightarrow> (nref \<rightharpoonup> nat)" where
  "putCoseNode p m = m(snd p \<mapsto> fst p)"

definition ciseNodeToCoseNode :: "nref list \<Rightarrow> (nref \<rightharpoonup> nat)" where
  "ciseNodeToCoseNode nonOn = fold putCoseNode (enumerate 0 nonOn) Map.empty"

text \<open>
  \<open>getAllEdges\<close> of the graph manager: the edges of the root graph, those of each circle,
  then the inter-graph edges.
\<close>

definition getAllEdges :: "CiSELayout \<Rightarrow> eref list" where
  "getAllEdges s = rootEdges s @ concat (map gedges (circles s)) @ gmEdges s"

text \<open>
  The end of an edge in the quotient graph: an on-circle node is replaced by the parent
  of its owner.  Only a circle with a parent node is a possible owner of an on-circle
  node; anything else is taken as an exception.
\<close>

definition quotientEnd :: "CiSELayout \<Rightarrow> nref \<Rightarrow> error + nref" where
  "quotientEnd s n =
     (if onCircleNodeExt (nodes s ! n) \<noteq> None
      then (case owner (nodes s ! n) of
              Some (CircleGraph c) \<Rightarrow>
                (case parent (circles s ! c) of Some p \<Rightarrow> Inr p | None \<Rightarrow> Inl TypeError)
            | _ \<Rightarrow> Inl TypeError)
      else Inr n)"

text \<open>
  \<open>nodePairs\<close> finds the reduced edge between two indices, in either direction; without
  one, a new reduced edge is pushed.  The edge of the layout is pushed to the list of
  the reduced edge.
\<close>

fun addToCoSEEdge :: "nat \<Rightarrow> nat \<Rightarrow> eref \<Rightarrow> cose_edge list \<Rightarrow> cose_edge list" where
  "addToCoSEEdge si ti e [] = [((si, ti), [e])]"
| "addToCoSEEdge si ti e (x # xs) =
     (if fst x = (si, ti) \<or> fst x = (ti, si) then (fst x, snd x @ [e]) # xs
      else x # addToCoSEEdge si ti e xs)"

text \<open>
  The body of the loop over all edges.  A node that the map does not hold has the index
  \<open>-1\<close>; then \<open>nodePairs[-1]\<close> is undefined and reading an element of it throws.
\<close>

definition coseEdgeStep :: "CiSELayout \<Rightarrow> (nref \<rightharpoonup> nat) \<Rightarrow> eref \<Rightarrow> cose_edge list \<Rightarrow> error + cose_edge list" where
  "coseEdgeStep s m e newCoSEEdges =
     (case quotientEnd s (source (edges s ! e)) of
        Inl err \<Rightarrow> Inl err
      | Inr sourceCise \<Rightarrow>
          (case quotientEnd s (target (edges s ! e)) of
             Inl err \<Rightarrow> Inl err
           | Inr targetCise \<Rightarrow>
               (case (m sourceCise, m targetCise) of
                  (Some sourceIndex, Some targetIndex) \<Rightarrow>
                    (if sourceIndex \<noteq> targetIndex
                     then Inr (addToCoSEEdge sourceIndex targetIndex e newCoSEEdges)
                     else Inr newCoSEEdges)
                | (None, None) \<Rightarrow> Inr newCoSEEdges
                | _ \<Rightarrow> Inl TypeError)))"

definition setLocation :: "nref \<Rightarrow> real \<times> real \<Rightarrow> CiSENode list \<Rightarrow> CiSENode list" where
  "setLocation n p ns = ns[n := (ns ! n)\<lparr>rect_x := fst p, rect_y := snd p\<rparr>]"

text \<open>
  The first loop after the embedder has run: every non-on-circle node gets the location
  of its node of the embedder (the map holds every node of the list).
\<close>

definition updateNonOnCircle :: "(nref \<rightharpoonup> nat) \<Rightarrow> (nat \<Rightarrow> real \<times> real) \<Rightarrow> nref \<Rightarrow> CiSENode list \<Rightarrow> CiSENode list" where
  "updateNonOnCircle m loc n ns =
     (case m n of Some i \<Rightarrow> setLocation n (loc i) ns | None \<Rightarrow> ns)"

text \<open>
  The second loop: every on-circle node is moved by the location of the parent of its
  owner.
\<close>

definition updateOnCircle :: "CiSECircle list \<Rightarrow> nref \<Rightarrow> CiSENode list \<Rightarrow> error + CiSENode list" where
  "updateOnCircle cs n ns =
     (case owner (ns ! n) of
        Some (CircleGraph c) \<Rightarrow>
          (case parent (cs ! c) of
             Some p \<Rightarrow> Inr (setLocation n (rect_x (ns ! n) + rect_x (ns ! p),
                                           rect_y (ns ! n) + rect_y (ns ! p)) ns)
           | None \<Rightarrow> Inl TypeError)
      | _ \<Rightarrow> Inl TypeError)"

text \<open>
  \<open>doStep2\<close>.  The arguments are the values of the constants \<open>CiSELayout.STEP_2\<close> and
  \<open>CiSELayout.PHASE_OTHER\<close>, and the spring embedder: \<open>runLayout nodes edges i\<close> is the
  location of the \<open>i\<close>-th node after \<open>coseLayout.runLayout()\<close>.
\<close>

definition doStep2 ::
  "int option \<Rightarrow> int option \<Rightarrow> (CoSENode list \<Rightarrow> cose_edge list \<Rightarrow> nat \<Rightarrow> real \<times> real)
     \<Rightarrow> CiSELayout \<Rightarrow> error + CiSELayout" where
  "doStep2 STEP_2 PHASE_OTHER runLayout s =
     (let s0 = s\<lparr>step := STEP_2, phase := PHASE_OTHER\<rparr>;
          nonOnCircleNodes = gmNonOnCircleNodes s0;
          newCoSENodes = map (newCoSENode (nodes s0)) (enumerate 0 nonOnCircleNodes);
          m = ciseNodeToCoseNode nonOnCircleNodes
      in case forEachE (coseEdgeStep s0 m) (getAllEdges s0) [] of
           Inl err \<Rightarrow> Inl err
         | Inr newCoSEEdges \<Rightarrow>
             (let loc = runLayout newCoSENodes newCoSEEdges;
                  ns1 = fold (updateNonOnCircle m loc) nonOnCircleNodes (nodes s0)
              in case forEachE (updateOnCircle (circles s0)) (gmOnCircleNodes s0) ns1 of
                   Inl err \<Rightarrow> Inl err
                 | Inr ns2 \<Rightarrow> Inr (s0\<lparr>nodes := ns2\<rparr>)))"

section \<open>CiSELayout.js: prepareCirclesForReversal\<close>

text \<open>The body of the loop, for a node of the root graph that has a child circle.\<close>

definition prepareCircle :: "CiSENode list \<Rightarrow> CiSEEdge list \<Rightarrow> CiSECircle \<Rightarrow> CiSECircle" where
  "prepareCircle ns es circle =
     (let r = getInterClusterEdges ns es circle;
          circle = (if length (fst r) < 2 then setMayNotBeReversed (snd r) else snd r)
      in computeOrderMatrix ns circle)"

definition prepareNode :: "nref \<Rightarrow> CiSELayout \<Rightarrow> CiSELayout" where
  "prepareNode n s =
     (case child (nodes s ! n) of
        None \<Rightarrow> s
      | Some c \<Rightarrow> s\<lparr>circles := (circles s)[c := prepareCircle (nodes s) (edges s) (circles s ! c)]\<rparr>)"

definition prepareCirclesForReversal :: "CiSELayout \<Rightarrow> CiSELayout" where
  "prepareCirclesForReversal s = fold prepareNode (rootNodes s) s"

section \<open>Notions used to state the frame of doStep2\<close>

text \<open>The same nodes, but for the locations.\<close>

definition sameButLocation :: "CiSENode list \<Rightarrow> CiSENode list \<Rightarrow> bool" where
  "sameButLocation ns ns' =
     (length ns' = length ns
      \<and> (\<forall>k. (ns' ! k)\<lparr>rect_x := rect_x (ns ! k), rect_y := rect_y (ns ! k)\<rparr> = ns ! k))"

text \<open>
  What the builder leaves for Step 2: the two lists of the manager name existing nodes,
  each once, and no node is in both; the parent of the owner of an on-circle node is not
  an on-circle node.
\<close>

definition step2Ready :: "CiSELayout \<Rightarrow> bool" where
  "step2Ready s =
     (distinct (gmNonOnCircleNodes s) \<and> distinct (gmOnCircleNodes s)
      \<and> set (gmNonOnCircleNodes s) \<inter> set (gmOnCircleNodes s) = {}
      \<and> (\<forall>n \<in> set (gmNonOnCircleNodes s). n < length (nodes s))
      \<and> (\<forall>n \<in> set (gmOnCircleNodes s). n < length (nodes s))
      \<and> (\<forall>n \<in> set (gmOnCircleNodes s). \<forall>c p.
            owner (nodes s ! n) = Some (CircleGraph c) \<longrightarrow> parent (circles s ! c) = Some p
            \<longrightarrow> p \<notin> set (gmOnCircleNodes s)))"

text \<open>
  An embedder for the worked example: it puts the \<open>i\<close>-th node of the reduced graph at
  \<open>(100 * i, 50)\<close>.
\<close>

definition exRunLayout :: "CoSENode list \<Rightarrow> cose_edge list \<Rightarrow> nat \<Rightarrow> real \<times> real" where
  "exRunLayout ns es i = (100 * real i, 50)"

section \<open>The operations on a layout\<close>

text \<open>
  One operation on the layout: the builder, Step 2 (with any embedder and any marker
  values), the preparation for reversal, an operation of \<open>CiSECircle.js\<close> on one of
  the circles of the layout, any write to the node objects (as \<open>doStep1\<close> does with
  \<open>setLocation\<close>, \<open>setIndex\<close>, \<open>setAngle\<close> and the dimensions of a parent node), or a
  write to the step and phase markers.  \<open>doStep1\<close> is a sequence of such operations:
  the markers, then for every circle the writes to its nodes, the sort of its on-circle
  nodes, \<open>setRadius\<close> and \<open>calculateParentNodeDimension\<close>.
\<close>

inductive layoutOp :: "CiSELayout \<Rightarrow> CiSELayout \<Rightarrow> bool" where
  builder: "convertToClusteredGraph ns es clusters s = Inr (m, s') \<Longrightarrow> layoutOp s s'"
| step2: "doStep2 a b runLayout s = Inr s' \<Longrightarrow> layoutOp s s'"
| prepare: "layoutOp s (prepareCirclesForReversal s)"
| circleOp: "c < length (circles s) \<Longrightarrow>
     layoutOp s (s\<lparr>circles := (circles s)[c := circle_apply (nodes s) (edges s) op (circles s ! c)]\<rparr>)"
| nodeWrites: "layoutOp s (s\<lparr>nodes := ns\<rparr>)"
| markers: "layoutOp s (s\<lparr>step := a, phase := b\<rparr>)"

text \<open>Every circle of the first layout is still there, and non-reversible if it was.\<close>

definition flagsMono :: "CiSELayout \<Rightarrow> CiSELayout \<Rightarrow> bool" where
  "flagsMono s s' =
     (length (circles s) \<le> length (circles s')
      \<and> (\<forall>c<length (circles s).
            \<not> mayBeReversed (circles s ! c) \<longrightarrow> \<not> mayBeReversed (circles s' ! c)))"

section \<open>Properties of CiSECircle\<close>

lemma circle_apply_keeps_not_reversible:
  "\<not> mayBeReversed c \<Longrightarrow> \<not> mayBeReversed (circle_apply ns es op c)"
  by (cases op)
     (simp_all add: setRadius_def setMayNotBeReversed_def getInterClusterEdges_def
        getIntraClusterEdges_def computeOrderMatrix_def Let_def split: option.splits)

text \<open>
  C1 (the code at a concrete circle).  A circle with one edge, which is intra-cluster, and
  with no out-node: the first call of \<open>getIntraClusterEdges\<close> stores the list \<open>[0]\<close> of
  intra-cluster edges in the field \<open>intraClusterEdges\<close> and returns the field
  \<open>interClusterEdges\<close>, which is still \<open>null\<close>; after \<open>getInterClusterEdges\<close> has been
  called, it returns the (empty) list of inter-cluster edges.  In neither case does it
  return the list of intra-cluster edges.
\<close>

theorem getIntraClusterEdges_returns_inter_field:
  "fst (getIntraClusterEdges [\<lparr>source = 0, target = 1, isIntraCluster = True\<rparr>]
          ((new_CiSECircle None)\<lparr>gedges := [0]\<rparr>)) = None
   \<and> intraClusterEdges (snd (getIntraClusterEdges [\<lparr>source = 0, target = 1, isIntraCluster = True\<rparr>]
          ((new_CiSECircle None)\<lparr>gedges := [0]\<rparr>))) = Some [0]
   \<and> fst (getIntraClusterEdges [\<lparr>source = 0, target = 1, isIntraCluster = True\<rparr>]
          (snd (getInterClusterEdges [] [\<lparr>source = 0, target = 1, isIntraCluster = True\<rparr>]
             ((new_CiSECircle None)\<lparr>gedges := [0]\<rparr>)))) = Some []"
  by (simp add: getIntraClusterEdges_def getInterClusterEdges_def new_CiSECircle_def Let_def)

section \<open>Properties of the circular mean\<close>

text \<open>
  C4.  On a circle of 6 on-circle nodes the heuristic gives the representative index 0
  for the indices 0, 1, 5 (the index 5, behind the largest gap, is lowered by 6 before the
  average is taken) and the representative index 2 for the indices 1, 2, 3.
\<close>

theorem representativeIndex_examples:
  "representativeIndex 6 [0, 1, 5] = Some 0 \<and> representativeIndex 6 [1, 2, 3] = Some 2"
  by (simp add: representativeIndex_def js_sort_def js_toString_def averageIndex_def
      gapStep_def gapInit_def wrapGap_def adjustIndices_def Let_def)

text \<open>
  C2 (the code at a concrete input).  For the gathered indices 2 and 10, on a circle of 12
  on-circle nodes, \<open>sort()\<close> puts 10 before 2, since the string "10" is smaller than the
  string "2": the list is not ascending when the largest gap is computed.  The
  representative index becomes 6, where the ascending list 2, 10 gives 0.
\<close>

theorem js_sort_two_digit_indices:
  "js_sort [2, 10] = [10, 2] \<and> \<not> sorted (js_sort [2, 10])
   \<and> representativeIndex 12 [2, 10] = Some 6 \<and> averageIndex 12 [2, 10] = Some 0"
  by (simp add: representativeIndex_def js_sort_def js_toString_def averageIndex_def
      gapStep_def gapInit_def wrapGap_def adjustIndices_def Let_def)

section \<open>Properties of the order matrix\<close>




















lemma normalizeAngle_range: "0 \<le> normalizeAngle d \<and> normalizeAngle d < 2 * pi"
proof -
  have p: "0 < 2 * pi" by simp
  define q where "q = d / (2 * pi)"
  have dq: "d = 2 * pi * q" by (simp add: q_def)
  have "of_int \<lfloor>q\<rfloor> \<le> q" by simp
  then have 1: "2 * pi * of_int \<lfloor>q\<rfloor> \<le> 2 * pi * q"
    using p by (simp only: mult_le_cancel_left_pos)
  have "q < of_int \<lfloor>q\<rfloor> + 1" by linarith
  then have 2: "2 * pi * q < 2 * pi * (of_int \<lfloor>q\<rfloor> + 1)"
    using p by (simp only: mult_less_cancel_left_pos)
  have "normalizeAngle d = 2 * pi * q - 2 * pi * of_int \<lfloor>q\<rfloor>"
    unfolding normalizeAngle_def q_def[symmetric] using dq by simp
  moreover have "2 * pi * q < 2 * pi * of_int \<lfloor>q\<rfloor> + 2 * pi"
    using 2 by (simp add: algebra_simps)
  ultimately show ?thesis using 1 by linarith
qed






section \<open>Properties of the cluster graph builder\<close>

lemma forEachE_invariant:
  assumes "forEachE f xs s = Inr s'" and "P s"
    and "\<And>x s t. x \<in> set xs \<Longrightarrow> P s \<Longrightarrow> f x s = Inr t \<Longrightarrow> P t"
  shows "P s'"
  using assms
proof (induction xs arbitrary: s)
  case Nil
  then show ?case by simp
next
  case (Cons x xs)
  from Cons.prems(1) obtain t where t: "f x s = Inr t" "forEachE f xs t = Inr s'"
    by (auto split: sum.splits)
  have pt: "P t" using Cons.prems(3)[of x s t] Cons.prems(2) t(1) by simp
  show ?case
  proof (rule Cons.IH[OF t(2) pt])
    fix y u v
    assume "y \<in> set xs" "P u" "f y u = Inr v"
    then show "P v" using Cons.prems(3)[of y u v] by simp
  qed
qed

text \<open>Phase 1, first half: the cluster node and its circle.\<close>

lemma resolvable_addClusterNode:
  "resolvable s k \<Longrightarrow> resolvable (addClusterNode i s) k"
  by (auto simp: resolvable_def addClusterNode_def Let_def nth_append)

lemma circlesInv_addClusterNode:
  "circlesInv s \<Longrightarrow> circlesInv (addClusterNode i s)"
  unfolding circlesInv_def
  by (auto simp: addClusterNode_def Let_def nth_append new_CiSECircle_def less_Suc_eq)

lemma placeholdersInv_addClusterNode:
  "placeholdersInv s \<Longrightarrow> placeholdersInv (addClusterNode (int (length (circles s))) s)"
  unfolding placeholdersInv_def
  by (auto simp: addClusterNode_def Let_def nth_append new_CiSECircle_def newNode_def less_Suc_eq)

lemma tableInv_addClusterNode:
  "tableInv m s \<Longrightarrow> tableInv m (addClusterNode i s)"
  unfolding tableInv_def by (blast intro: resolvable_addClusterNode)

lemma edgesInv_empty: "edges s = [] \<Longrightarrow> gmEdges s = [] \<Longrightarrow> edgesInv s"
  by (simp add: edgesInv_def)

text \<open>Phase 1, second half: a member of the cluster.\<close>

lemma addMember_result:
  assumes "addMember cyMap i c nodeID (m, s) = Inr (m', s')"
  shows "\<exists>x y w h. m' = m(nodeID \<mapsto> length (nodes s))
     \<and> s' = s\<lparr>nodes := nodes s @ [(newCiSEOnCircleNode x y w h)
                   \<lparr>ID := Some nodeID, clusterID := Some i, owner := Some (CircleGraph c)\<rparr>],
              circles := (circles s)[c := (circles s ! c)
                   \<lparr>onCircleNodes := onCircleNodes (circles s ! c) @ [length (nodes s)],
                    gnodes := gnodes (circles s ! c) @ [length (nodes s)],
                    inNodes := inNodes (circles s ! c) @ [length (nodes s)]\<rparr>]\<rparr>"
  using assms by (auto simp: addMember_def Let_def split: option.splits)

lemma circlesInvD:
  assumes "circlesInv s" "c < length (circles s)"
  shows "distinct (inNodes (circles s ! c))" "distinct (outNodes (circles s ! c))"
    "set (inNodes (circles s ! c)) \<inter> set (outNodes (circles s ! c)) = {}"
    "set (inNodes (circles s ! c)) \<union> set (outNodes (circles s ! c)) = set (onCircleNodes (circles s ! c))"
  using assms unfolding circlesInv_def by blast+

lemma circlesInv_mem:
  assumes "circlesInv s" "c < length (circles s)" "k \<in> set (onCircleNodes (circles s ! c))"
  shows "k < length (nodes s)" "clusterID (nodes s ! k) = Some (int c)"
    "owner (nodes s ! k) = Some (CircleGraph c)"
  using assms unfolding circlesInv_def by blast+

lemma circlesInv_addMember:
  assumes "addMember cyMap (int c) c nodeID (m, s) = Inr (m', s')" "circlesInv s" "c < length (circles s)"
  shows "circlesInv s'"
proof -
  obtain x y w h where s': "s' = s\<lparr>nodes := nodes s @ [(newCiSEOnCircleNode x y w h)
                   \<lparr>ID := Some nodeID, clusterID := Some (int c), owner := Some (CircleGraph c)\<rparr>],
              circles := (circles s)[c := (circles s ! c)
                   \<lparr>onCircleNodes := onCircleNodes (circles s ! c) @ [length (nodes s)],
                    gnodes := gnodes (circles s ! c) @ [length (nodes s)],
                    inNodes := inNodes (circles s ! c) @ [length (nodes s)]\<rparr>]\<rparr>"
    using addMember_result[OF assms(1)] by blast
  show ?thesis
    unfolding circlesInv_def
  proof (intro allI impI)
    fix d
    assume "d < length (circles s')"
    then have d: "d < length (circles s)" by (simp add: s')
    note old = circlesInvD[OF assms(2) d]
    note mem = circlesInv_mem[OF assms(2) d]
    have fresh: "length (nodes s) \<notin> set (onCircleNodes (circles s ! d))"
      using mem(1) by blast
    then have fresh2: "length (nodes s) \<notin> set (inNodes (circles s ! d))"
        "length (nodes s) \<notin> set (outNodes (circles s ! d))"
      using old(4) by blast+
    show "distinct (inNodes (circles s' ! d)) \<and> distinct (outNodes (circles s' ! d))
        \<and> set (inNodes (circles s' ! d)) \<inter> set (outNodes (circles s' ! d)) = {}
        \<and> set (inNodes (circles s' ! d)) \<union> set (outNodes (circles s' ! d))
            = set (onCircleNodes (circles s' ! d))
        \<and> (\<forall>k \<in> set (onCircleNodes (circles s' ! d)).
              k < length (nodes s') \<and> clusterID (nodes s' ! k) = Some (int d)
              \<and> owner (nodes s' ! k) = Some (CircleGraph d))"
    proof (cases "d = c")
      case True
      show ?thesis
        using old mem fresh2 d unfolding s' True
        by (auto simp: nth_append less_Suc_eq)
    next
      case False
      show ?thesis
        using old mem fresh2 d False unfolding s'
        by (auto simp: nth_append less_Suc_eq)
    qed
  qed
qed


lemma addMember_frame:
  assumes "addMember cyMap i c nodeID (m, s) = Inr (m', s')"
  shows "edges s' = edges s" "gmEdges s' = gmEdges s" "length (circles s') = length (circles s)"
    "rootNodes s' = rootNodes s"
  using addMember_result[OF assms] by auto

lemma addMember_resolvable:
  assumes "addMember cyMap i c nodeID (m, s) = Inr (m', s')" "resolvable s k"
  shows "resolvable s' k"
proof -
  obtain x y w h where s': "s' = s\<lparr>nodes := nodes s @ [(newCiSEOnCircleNode x y w h)
                   \<lparr>ID := Some nodeID, clusterID := Some i, owner := Some (CircleGraph c)\<rparr>],
              circles := (circles s)[c := (circles s ! c)
                   \<lparr>onCircleNodes := onCircleNodes (circles s ! c) @ [length (nodes s)],
                    gnodes := gnodes (circles s ! c) @ [length (nodes s)],
                    inNodes := inNodes (circles s ! c) @ [length (nodes s)]\<rparr>]\<rparr>"
    using addMember_result[OF assms(1)] by blast
  have k: "k < length (nodes s)" using assms(2) by (simp add: resolvable_def)
  from assms(2) consider
      "owner (nodes s ! k) = Some RootGraph \<and> clusterID (nodes s ! k) = Some (- 1)"
    | d where "d < length (circles s)" "owner (nodes s ! k) = Some (CircleGraph d)"
        "k \<in> set (onCircleNodes (circles s ! d))"
    unfolding resolvable_def by blast
  then show ?thesis
  proof cases
    case 1
    then show ?thesis using k unfolding resolvable_def s' by (simp add: nth_append)
  next
    case 2
    have "k \<in> set (onCircleNodes (circles s' ! d))"
      using 2 unfolding s' by (cases "d = c") simp_all
    then show ?thesis
      using k 2 unfolding resolvable_def s' by (auto simp: nth_append)
  qed
qed

lemma addMember_new_resolvable:
  assumes "addMember cyMap i c nodeID (m, s) = Inr (m', s')" "c < length (circles s)"
  shows "resolvable s' (length (nodes s))" "m' = m(nodeID \<mapsto> length (nodes s))"
proof -
  obtain x y w h where s': "s' = s\<lparr>nodes := nodes s @ [(newCiSEOnCircleNode x y w h)
                   \<lparr>ID := Some nodeID, clusterID := Some i, owner := Some (CircleGraph c)\<rparr>],
              circles := (circles s)[c := (circles s ! c)
                   \<lparr>onCircleNodes := onCircleNodes (circles s ! c) @ [length (nodes s)],
                    gnodes := gnodes (circles s ! c) @ [length (nodes s)],
                    inNodes := inNodes (circles s ! c) @ [length (nodes s)]\<rparr>]\<rparr>"
    and m': "m' = m(nodeID \<mapsto> length (nodes s))"
    using addMember_result[OF assms(1)] by blast
  show "resolvable s' (length (nodes s))"
    using assms(2) unfolding resolvable_def s' by auto
  show "m' = m(nodeID \<mapsto> length (nodes s))" by (rule m')
qed

lemma tableInv_addMember:
  assumes "addMember cyMap i c nodeID (m, s) = Inr (m', s')" "c < length (circles s)" "tableInv m s"
  shows "tableInv m' s'"
  unfolding tableInv_def
proof (intro allI impI)
  fix j k
  assume h: "m' j = Some k"
  show "resolvable s' k"
  proof (cases "j = nodeID")
    case True
    then show ?thesis using h addMember_new_resolvable[OF assms(1,2)] by simp
  next
    case False
    then have "m j = Some k" using h addMember_new_resolvable(2)[OF assms(1,2)] by simp
    then have "resolvable s k" using assms(3) by (simp add: tableInv_def)
    then show ?thesis by (rule addMember_resolvable[OF assms(1)])
  qed
qed

lemma placeholdersInv_addMember:
  assumes "addMember cyMap i c nodeID (m, s) = Inr (m', s')" "placeholdersInv s"
  shows "placeholdersInv s'"
proof -
  obtain x y w h where s': "s' = s\<lparr>nodes := nodes s @ [(newCiSEOnCircleNode x y w h)
                   \<lparr>ID := Some nodeID, clusterID := Some i, owner := Some (CircleGraph c)\<rparr>],
              circles := (circles s)[c := (circles s ! c)
                   \<lparr>onCircleNodes := onCircleNodes (circles s ! c) @ [length (nodes s)],
                    gnodes := gnodes (circles s ! c) @ [length (nodes s)],
                    inNodes := inNodes (circles s ! c) @ [length (nodes s)]\<rparr>]\<rparr>"
    using addMember_result[OF assms(1)] by blast
  show ?thesis
    unfolding placeholdersInv_def
  proof (intro allI impI)
    fix n d
    assume n: "n < length (nodes s')" and ch: "child (nodes s' ! n) = Some d"
    have "n \<noteq> length (nodes s)"
      using ch unfolding s' by (auto simp: newCiSEOnCircleNode_def newNode_def)
    then have n': "n < length (nodes s)" using n unfolding s' by simp
    then have ch': "child (nodes s ! n) = Some d" using ch unfolding s' by (simp add: nth_append)
    have old: "ID (nodes s ! n) = None \<and> clusterID (nodes s ! n) = Some (int d)
        \<and> d < length (circles s) \<and> parent (circles s ! d) = Some n"
      using assms(2) n' ch' unfolding placeholdersInv_def by blast
    have "parent (circles s' ! d) = parent (circles s ! d)"
      using old unfolding s' by (cases "d = c") simp_all
    then show "ID (nodes s' ! n) = None \<and> clusterID (nodes s' ! n) = Some (int d)
        \<and> d < length (circles s') \<and> parent (circles s' ! d) = Some n"
      using old n' unfolding s' by (simp add: nth_append)
  qed
qed

text \<open>The whole first phase.\<close>

lemma members_inv:
  assumes "forEachE (addMember cyMap (int c) c) ids b = Inr b'" "nodesInv b" "c < length (circles (snd b))"
  shows "nodesInv b' \<and> length (circles (snd b')) = length (circles (snd b))"
proof -
  let ?P = "\<lambda>b'. nodesInv b' \<and> length (circles (snd b')) = length (circles (snd b))"
  have "?P b'"
  proof (rule forEachE_invariant[where P = ?P, OF assms(1)])
    show "?P b" using assms(2) by simp
  next
    fix x t u
    assume p: "?P t" and st: "addMember cyMap (int c) c x t = Inr u"
    obtain m s where t: "t = (m, s)" by (cases t)
    obtain m' s' where u: "u = (m', s')" by (cases u)
    have c: "c < length (circles s)" using p assms(3) t by simp
    have st': "addMember cyMap (int c) c x (m, s) = Inr (m', s')" using st t u by simp
    show "?P u"
      using p c circlesInv_addMember[OF st' _ c] placeholdersInv_addMember[OF st']
        tableInv_addMember[OF st' c] addMember_frame[OF st']
      unfolding t u nodesInv_def by simp
  qed
  then show ?thesis .
qed

lemma addCluster_inv:
  assumes "addCluster cyMap (length (circles s), cluster) (m, s) = Inr b'" "nodesInv (m, s)"
  shows "nodesInv b' \<and> length (circles (snd b')) = Suc (length (circles s))"
proof -
  let ?s1 = "addClusterNode (int (length (circles s))) s"
  have l: "length (circles ?s1) = Suc (length (circles s))"
    by (simp add: addClusterNode_def Let_def)
  have e: "edges ?s1 = edges s" "gmEdges ?s1 = gmEdges s"
    by (simp_all add: addClusterNode_def Let_def)
  have inv1: "nodesInv (m, ?s1)"
    using assms(2) circlesInv_addClusterNode placeholdersInv_addClusterNode tableInv_addClusterNode e
    unfolding nodesInv_def by simp
  have run: "forEachE (addMember cyMap (int (length (circles s))) (length (circles s))) cluster (m, ?s1) = Inr b'"
    using assms(1) by (simp add: addCluster_def)
  show ?thesis
    using members_inv[OF run inv1] l by simp
qed

lemma clusters_inv:
  assumes "forEachE (addCluster cyMap) (enumerate (length (circles (snd b))) clusters) b = Inr b'"
    "nodesInv b"
  shows "nodesInv b' \<and> length (circles (snd b')) = length (circles (snd b)) + length clusters"
  using assms
proof (induction clusters arbitrary: b)
  case Nil
  then show ?case by simp
next
  case (Cons cl cls)
  obtain m s where b: "b = (m, s)" by (cases b)
  from Cons.prems(1) obtain t where
    t: "addCluster cyMap (length (circles s), cl) (m, s) = Inr t"
       "forEachE (addCluster cyMap) (enumerate (Suc (length (circles s))) cls) t = Inr b'"
    unfolding b by (auto split: sum.splits)
  have it: "nodesInv t \<and> length (circles (snd t)) = Suc (length (circles s))"
    using addCluster_inv[OF t(1)] Cons.prems(2) b by simp
  then have "nodesInv b' \<and> length (circles (snd b')) = length (circles (snd t)) + length cls"
    using Cons.IH[of t] t(2) by simp
  then show ?case using it b by simp
qed

text \<open>Phase 2: the unclustered nodes.\<close>

lemma addUnclustered_inv:
  assumes "nodesInv b"
  shows "nodesInv (addUnclustered clusters cy b)
     \<and> length (circles (snd (addUnclustered clusters cy b))) = length (circles (snd b))"
proof -
  obtain m s where b: "b = (m, s)" by (cases b)
  show ?thesis
  proof (cases "\<exists>cluster \<in> set clusters. cy_id cy \<in> set cluster")
    case True
    then show ?thesis using assms b by (simp add: addUnclustered_def)
  next
    case False
    define node where "node = (newNode (cy_x cy - cy_w cy / 2) (cy_y cy - cy_h cy / 2) (cy_w cy) (cy_h cy))
                      \<lparr>clusterID := Some (- 1), ID := Some (cy_id cy), owner := Some RootGraph\<rparr>"
    define s' where "s' = s\<lparr>nodes := nodes s @ [node], rootNodes := rootNodes s @ [length (nodes s)]\<rparr>"
    have r: "addUnclustered clusters cy b = (m(cy_id cy \<mapsto> length (nodes s)), s')"
      using False b by (simp add: addUnclustered_def Let_def s'_def node_def)
    have nd: "owner node = Some RootGraph" "clusterID node = Some (- 1)" "child node = None"
      by (simp_all add: node_def newNode_def)
    have res: "\<And>k. resolvable s k \<Longrightarrow> resolvable s' k"
      unfolding resolvable_def s'_def by (auto simp: nth_append)
    have new: "resolvable s' (length (nodes s))"
      unfolding resolvable_def s'_def using nd by simp
    have 1: "circlesInv s'"
      using assms b unfolding nodesInv_def circlesInv_def s'_def
      by (auto simp: nth_append less_Suc_eq)
    have 2: "placeholdersInv s'"
      unfolding placeholdersInv_def
    proof (intro allI impI)
      fix n d
      assume n: "n < length (nodes s')" and ch: "child (nodes s' ! n) = Some d"
      have "n \<noteq> length (nodes s)" using ch nd unfolding s'_def by auto
      then have n': "n < length (nodes s)" using n unfolding s'_def by simp
      then have "child (nodes s ! n) = Some d" using ch unfolding s'_def by (simp add: nth_append)
      then have "ID (nodes s ! n) = None \<and> clusterID (nodes s ! n) = Some (int d)
          \<and> d < length (circles s) \<and> parent (circles s ! d) = Some n"
        using assms b n' unfolding nodesInv_def placeholdersInv_def by blast
      then show "ID (nodes s' ! n) = None \<and> clusterID (nodes s' ! n) = Some (int d)
          \<and> d < length (circles s') \<and> parent (circles s' ! d) = Some n"
        using n' unfolding s'_def by (simp add: nth_append)
    qed
    have 3: "tableInv (m(cy_id cy \<mapsto> length (nodes s))) s'"
      using assms b res new unfolding nodesInv_def tableInv_def by auto
    show ?thesis
      using 1 2 3 assms b unfolding r nodesInv_def by (simp add: s'_def)
  qed
qed

lemma unclustered_inv:
  "nodesInv b \<Longrightarrow> nodesInv (fold (addUnclustered clusters) ns b)
     \<and> length (circles (snd (fold (addUnclustered clusters) ns b))) = length (circles (snd b))"
proof (induction ns arbitrary: b)
  case Nil
  then show ?case by simp
next
  case (Cons a ns)
  show ?case using Cons.IH[of "addUnclustered clusters a b"] addUnclustered_inv[OF Cons.prems, of clusters a]
    by simp
qed

text \<open>The frame of the later phases.\<close>

lemma sameStatics_refl: "sameStatics s s"
  by (simp add: sameStatics_def)

lemma sameStatics_trans: "sameStatics s t \<Longrightarrow> sameStatics t u \<Longrightarrow> sameStatics s u"
  by (simp add: sameStatics_def)

lemma sameInOut_refl: "sameInOut s s"
  by (simp add: sameInOut_def)

lemma sameInOut_trans: "sameInOut s t \<Longrightarrow> sameInOut t u \<Longrightarrow> sameInOut s u"
  by (simp add: sameInOut_def)

lemma sameStatics_resolvable: "sameStatics s s' \<Longrightarrow> resolvable s' k = resolvable s k"
  by (simp add: sameStatics_def resolvable_def)

lemma sameStatics_placeholdersInv: "sameStatics s s' \<Longrightarrow> placeholdersInv s' = placeholdersInv s"
  by (simp add: sameStatics_def placeholdersInv_def)

lemma sameStatics_tableInv: "sameStatics s s' \<Longrightarrow> tableInv m s' = tableInv m s"
  by (simp add: tableInv_def sameStatics_resolvable)

lemma sameStatics_circlesInv: "sameStatics s s' \<Longrightarrow> sameInOut s s' \<Longrightarrow> circlesInv s' = circlesInv s"
  by (simp add: sameStatics_def sameInOut_def circlesInv_def)

lemma addIncident_cases:
  "addIncident e n ns ! k = (if k = n \<and> n < length ns then (ns ! n)\<lparr>nedges := nedges (ns ! n) @ [e]\<rparr> else ns ! k)"
proof (cases "n < length ns")
  case True
  then show ?thesis by (simp add: addIncident_def nth_list_update)
next
  case False
  then have "addIncident e n ns = ns" by (simp add: addIncident_def list_update_beyond)
  then show ?thesis using False by simp
qed

lemma addIncident_nth:
  "length (addIncident e n ns) = length ns"
  "ID (addIncident e n ns ! k) = ID (ns ! k)"
  "clusterID (addIncident e n ns ! k) = clusterID (ns ! k)"
  "owner (addIncident e n ns ! k) = owner (ns ! k)"
  "child (addIncident e n ns ! k) = child (ns ! k)"
  by (simp_all add: addIncident_cases) (simp add: addIncident_def)

lemma graph_add_edge_frame:
  "sameStatics s (graph_add_edge g e sn tn s)" "sameInOut s (graph_add_edge g e sn tn s)"
  "edges (graph_add_edge g e sn tn s) = edges s" "gmEdges (graph_add_edge g e sn tn s) = gmEdges s"
proof -
  have c: "\<And>c d x. parent ((circles s)[c := (circles s ! c)\<lparr>gedges := x\<rparr>] ! d) = parent (circles s ! d)
      \<and> onCircleNodes ((circles s)[c := (circles s ! c)\<lparr>gedges := x\<rparr>] ! d) = onCircleNodes (circles s ! d)
      \<and> inNodes ((circles s)[c := (circles s ! c)\<lparr>gedges := x\<rparr>] ! d) = inNodes (circles s ! d)
      \<and> outNodes ((circles s)[c := (circles s ! c)\<lparr>gedges := x\<rparr>] ! d) = outNodes (circles s ! d)"
  proof -
    fix c d x
    show "parent ((circles s)[c := (circles s ! c)\<lparr>gedges := x\<rparr>] ! d) = parent (circles s ! d)
      \<and> onCircleNodes ((circles s)[c := (circles s ! c)\<lparr>gedges := x\<rparr>] ! d) = onCircleNodes (circles s ! d)
      \<and> inNodes ((circles s)[c := (circles s ! c)\<lparr>gedges := x\<rparr>] ! d) = inNodes (circles s ! d)
      \<and> outNodes ((circles s)[c := (circles s ! c)\<lparr>gedges := x\<rparr>] ! d) = outNodes (circles s ! d)"
      by (cases "d = c"; cases "c < length (circles s)"; simp add: list_update_beyond)
  qed
  show "sameStatics s (graph_add_edge g e sn tn s)"
    unfolding sameStatics_def graph_add_edge_def Let_def
    by (cases g) (simp_all add: addIncident_nth c)
  show "sameInOut s (graph_add_edge g e sn tn s)"
    unfolding sameInOut_def graph_add_edge_def Let_def
    by (cases g) (simp_all add: c)
  show "edges (graph_add_edge g e sn tn s) = edges s"
    unfolding graph_add_edge_def Let_def by (cases g) simp_all
  show "gmEdges (graph_add_edge g e sn tn s) = gmEdges s"
    unfolding graph_add_edge_def Let_def by (cases g) simp_all
qed

lemma gm_add_edge_frame:
  assumes "gm_add_edge e sn tn s = Inr s'"
  shows "sameStatics s s' \<and> sameInOut s s' \<and> edges s' = edges s
    \<and> (owner (nodes s ! sn) \<noteq> owner (nodes s ! tn) \<longrightarrow> gmEdges s' = gmEdges s @ [e])
    \<and> (gmEdges s' = gmEdges s \<or> gmEdges s' = gmEdges s @ [e])"
proof -
  obtain g h where gh: "owner (nodes s ! sn) = Some g" "owner (nodes s ! tn) = Some h"
    using assms by (auto simp: gm_add_edge_def split: option.splits)
  show ?thesis
  proof (cases "g = h")
    case True
    then have s': "s' = graph_add_edge g e sn tn s"
      using assms gh by (simp add: gm_add_edge_def)
    note f = graph_add_edge_frame[where s = s and g = g and e = e and sn = sn and tn = tn]
    have o: "owner (nodes s ! sn) = owner (nodes s ! tn)" using gh True by simp
    show ?thesis unfolding s' using f o by simp
  next
    case False
    then have s': "s' = s\<lparr>gmEdges := gmEdges s @ [e], nodes := addIncident e tn (addIncident e sn (nodes s))\<rparr>"
      using assms gh by (simp add: gm_add_edge_def)
    have 1: "sameStatics s s'" unfolding s' sameStatics_def by (simp add: addIncident_nth)
    have 2: "sameInOut s s'" unfolding s' sameInOut_def by simp
    have 3: "edges s' = edges s" "gmEdges s' = gmEdges s @ [e]" unfolding s' by simp_all
    show ?thesis using 1 2 3 by simp
  qed
qed

text \<open>Phase 3: the edges.\<close>

lemma sameStatics_edgesInv:
  assumes "sameStatics s s'" "edges s' = edges s" "gmEdges s' = gmEdges s"
  shows "edgesInv s' = edgesInv s"
proof -
  have c: "\<And>k. clusterID (nodes s' ! k) = clusterID (nodes s ! k)"
    and o: "\<And>k. owner (nodes s' ! k) = owner (nodes s ! k)"
    using assms(1) by (simp_all add: sameStatics_def)
  show ?thesis
    unfolding edgesInv_def by (simp add: assms(2,3) c o sameStatics_resolvable[OF assms(1)])
qed

lemma addEdge_result:
  assumes "addEdge e (m, s) = Inr (m', s')"
  shows "m' = m \<and> (\<exists>sn tn. m (cy_source e) = Some sn \<and> m (cy_target e) = Some tn \<and>
     (if sn = tn then s' = s
      else sameStatics s s' \<and> sameInOut s s'
        \<and> edges s' = edges s @ [\<lparr>source = sn, target = tn,
              isIntraCluster = (clusterID (nodes s ! sn) = clusterID (nodes s ! tn)
                                \<and> clusterID (nodes s ! sn) \<noteq> Some (- 1))\<rparr>]
        \<and> (gmEdges s' = gmEdges s \<or> gmEdges s' = gmEdges s @ [length (edges s)])
        \<and> (\<not> (clusterID (nodes s ! sn) = clusterID (nodes s ! tn)
                \<and> clusterID (nodes s ! sn) \<noteq> Some (- 1))
             \<and> owner (nodes s ! sn) \<noteq> owner (nodes s ! tn)
             \<longrightarrow> gmEdges s' = gmEdges s @ [length (edges s)])))"
proof -
  obtain sn tn where r: "m (cy_source e) = Some sn" "m (cy_target e) = Some tn"
    using assms by (auto simp: addEdge_def split: option.splits)
  show ?thesis
  proof (cases "sn = tn")
    case True
    then show ?thesis using assms r by (simp add: addEdge_def)
  next
    case False
    let ?intra = "clusterID (nodes s ! sn) = clusterID (nodes s ! tn) \<and> clusterID (nodes s ! sn) \<noteq> Some (- 1)"
    let ?x = "\<lparr>source = sn, target = tn, isIntraCluster = ?intra\<rparr>"
    let ?s1 = "s\<lparr>edges := edges s @ [?x]\<rparr>"
    have s1: "sameStatics s ?s1" "sameInOut s ?s1"
      by (simp_all add: sameStatics_def sameInOut_def)
    show ?thesis
    proof (cases ?intra)
      case True
      then obtain g where g: "owner (nodes s ! sn) = Some g" and s': "s' = graph_add_edge g (length (edges s)) sn tn ?s1"
        and mm: "m' = m"
        using assms r False by (auto simp: addEdge_def Let_def newEdge_def split: option.splits)
      note f = graph_add_edge_frame[where s = ?s1 and g = g and e = "length (edges s)" and sn = sn and tn = tn]
      have "sameStatics s s'" unfolding s' by (rule sameStatics_trans[OF s1(1) f(1)])
      moreover have "sameInOut s s'" unfolding s' by (rule sameInOut_trans[OF s1(2) f(2)])
      moreover have "edges s' = edges s @ [?x]" unfolding s' using f(3) by simp
      moreover have "gmEdges s' = gmEdges s" unfolding s' using f(4) by simp
      ultimately show ?thesis using r False True mm by auto
    next
      case nintra: False
      then have gm: "gm_add_edge (length (edges s)) sn tn ?s1 = Inr s'" and mm: "m' = m"
        using assms r False by (auto simp: addEdge_def Let_def newEdge_def split: sum.splits)
      note f = gm_add_edge_frame[OF gm]
      have "sameStatics s s'" using f by (blast intro: sameStatics_trans[OF s1(1)])
      moreover have "sameInOut s s'" using f by (blast intro: sameInOut_trans[OF s1(2)])
      moreover have "edges s' = edges s @ [?x]" using f by simp
      moreover have "gmEdges s' = gmEdges s \<or> gmEdges s' = gmEdges s @ [length (edges s)]" using f by simp
      moreover have "owner (nodes s ! sn) \<noteq> owner (nodes s ! tn) \<longrightarrow> gmEdges s' = gmEdges s @ [length (edges s)]"
        using f by simp
      ultimately show ?thesis using r False nintra mm by simp
    qed
  qed
qed


lemma addEdge_inv:
  assumes "addEdge e (m, s) = Inr (m', s')" "builderInv (m, s)"
  shows "builderInv (m', s') \<and> m' = m \<and> sameStatics s s' \<and> sameInOut s s'"
proof -
  from addEdge_result[OF assms(1)] obtain sn tn where
    mm: "m' = m" and r: "m (cy_source e) = Some sn" "m (cy_target e) = Some tn"
    and eff: "if sn = tn then s' = s
      else sameStatics s s' \<and> sameInOut s s'
        \<and> edges s' = edges s @ [\<lparr>source = sn, target = tn,
              isIntraCluster = (clusterID (nodes s ! sn) = clusterID (nodes s ! tn)
                                \<and> clusterID (nodes s ! sn) \<noteq> Some (- 1))\<rparr>]
        \<and> (gmEdges s' = gmEdges s \<or> gmEdges s' = gmEdges s @ [length (edges s)])
        \<and> (\<not> (clusterID (nodes s ! sn) = clusterID (nodes s ! tn)
                \<and> clusterID (nodes s ! sn) \<noteq> Some (- 1))
             \<and> owner (nodes s ! sn) \<noteq> owner (nodes s ! tn)
             \<longrightarrow> gmEdges s' = gmEdges s @ [length (edges s)])"
    by blast
  have inv: "circlesInv s" "placeholdersInv s" "tableInv m s" "edgesInv s"
    using assms(2) by (simp_all add: builderInv_def)
  show ?thesis
  proof (cases "sn = tn")
    case True
    then show ?thesis using eff mm assms(2) by (simp add: sameStatics_refl sameInOut_refl)
  next
    case False
    let ?x = "\<lparr>source = sn, target = tn,
              isIntraCluster = (clusterID (nodes s ! sn) = clusterID (nodes s ! tn)
                                \<and> clusterID (nodes s ! sn) \<noteq> Some (- 1))\<rparr>"
    have st: "sameStatics s s'" and io: "sameInOut s s'"
      and ed: "edges s' = edges s @ [?x]"
      and gm: "gmEdges s' = gmEdges s \<or> gmEdges s' = gmEdges s @ [length (edges s)]"
      and gmi: "\<not> isIntraCluster ?x \<and> owner (nodes s ! sn) \<noteq> owner (nodes s ! tn)
             \<longrightarrow> gmEdges s' = gmEdges s @ [length (edges s)]"
      using eff False by simp_all
    have c: "\<And>k. clusterID (nodes s' ! k) = clusterID (nodes s ! k)"
      and o: "\<And>k. owner (nodes s' ! k) = owner (nodes s ! k)"
      using st by (simp_all add: sameStatics_def)
    note res = sameStatics_resolvable[OF st]
    have rs: "resolvable s sn" "resolvable s tn"
      using inv(3) r by (auto simp: tableInv_def)
    have 1: "\<forall>j \<in> set (gmEdges s'). j < length (edges s')"
      using gm inv(4) ed by (auto simp: edgesInv_def less_Suc_eq)
    have 2: "\<forall>j<length (edges s').
         resolvable s' (source (edges s' ! j)) \<and> resolvable s' (target (edges s' ! j))
         \<and> (isIntraCluster (edges s' ! j) \<longleftrightarrow>
              clusterID (nodes s' ! source (edges s' ! j)) = clusterID (nodes s' ! target (edges s' ! j))
              \<and> clusterID (nodes s' ! source (edges s' ! j)) \<noteq> Some (- 1))
         \<and> (\<not> isIntraCluster (edges s' ! j)
              \<and> owner (nodes s' ! source (edges s' ! j)) \<noteq> owner (nodes s' ! target (edges s' ! j))
              \<longrightarrow> j \<in> set (gmEdges s'))"
    proof (intro allI impI)
      fix j
      assume "j < length (edges s')"
      then consider "j < length (edges s)" | "j = length (edges s)"
        using ed by (auto simp: less_Suc_eq)
      then show "resolvable s' (source (edges s' ! j)) \<and> resolvable s' (target (edges s' ! j))
         \<and> (isIntraCluster (edges s' ! j) \<longleftrightarrow>
              clusterID (nodes s' ! source (edges s' ! j)) = clusterID (nodes s' ! target (edges s' ! j))
              \<and> clusterID (nodes s' ! source (edges s' ! j)) \<noteq> Some (- 1))
         \<and> (\<not> isIntraCluster (edges s' ! j)
              \<and> owner (nodes s' ! source (edges s' ! j)) \<noteq> owner (nodes s' ! target (edges s' ! j))
              \<longrightarrow> j \<in> set (gmEdges s'))"
      proof cases
        case 1
        have old: "resolvable s (source (edges s ! j)) \<and> resolvable s (target (edges s ! j))
         \<and> (isIntraCluster (edges s ! j) \<longleftrightarrow>
              clusterID (nodes s ! source (edges s ! j)) = clusterID (nodes s ! target (edges s ! j))
              \<and> clusterID (nodes s ! source (edges s ! j)) \<noteq> Some (- 1))
         \<and> (\<not> isIntraCluster (edges s ! j)
              \<and> owner (nodes s ! source (edges s ! j)) \<noteq> owner (nodes s ! target (edges s ! j))
              \<longrightarrow> j \<in> set (gmEdges s))"
          using inv(4) 1 unfolding edgesInv_def by blast
        have e: "edges s' ! j = edges s ! j" using 1 ed by (simp add: nth_append)
        have sub: "set (gmEdges s) \<subseteq> set (gmEdges s')" using gm by auto
        show ?thesis unfolding e c o res using old sub by blast
      next
        case 2
        have e: "edges s' ! j = ?x" using 2 ed by simp
        have "j \<in> set (gmEdges s')" if "\<not> isIntraCluster ?x" "owner (nodes s ! sn) \<noteq> owner (nodes s ! tn)"
          using gmi that 2 by simp
        then show ?thesis unfolding e c o res using rs by auto
      qed
    qed
    have "edgesInv s'" unfolding edgesInv_def using 1 2 by blast
    then show ?thesis
      using inv st io mm sameStatics_circlesInv[OF st io] sameStatics_placeholdersInv[OF st]
        sameStatics_tableInv[OF st]
      by (simp add: builderInv_def)
  qed
qed

text \<open>The edge object that the builder makes for an input edge with two different ends.\<close>

lemma edges_phase:
  assumes "forEachE addEdge es (m, s) = Inr (m', s')" "builderInv (m, s)"
  shows "builderInv (m', s') \<and> m' = m \<and> sameStatics s s' \<and> sameInOut s s'
    \<and> (\<forall>e \<in> set es. m (cy_source e) \<noteq> None \<and> m (cy_target e) \<noteq> None)
    \<and> edges s' = edges s @ map (\<lambda>e. \<lparr>source = the (m (cy_source e)), target = the (m (cy_target e)),
           isIntraCluster = (clusterID (nodes s ! the (m (cy_source e))) = clusterID (nodes s ! the (m (cy_target e)))
              \<and> clusterID (nodes s ! the (m (cy_source e))) \<noteq> Some (- 1))\<rparr>)
         (filter (\<lambda>e. m (cy_source e) \<noteq> m (cy_target e)) es)"
  using assms
proof (induction es arbitrary: s)
  case Nil
  then show ?case by (simp add: sameStatics_refl sameInOut_refl)
next
  case (Cons e es)
  from Cons.prems(1) obtain b where b: "addEdge e (m, s) = Inr b" "forEachE addEdge es b = Inr (m', s')"
    by (auto split: sum.splits)
  obtain m1 s1 where b1: "b = (m1, s1)" by (cases b)
  have b': "addEdge e (m, s) = Inr (m1, s1)" using b(1) b1 by simp
  have step: "builderInv (m1, s1) \<and> m1 = m \<and> sameStatics s s1 \<and> sameInOut s s1"
    by (rule addEdge_inv[OF b' Cons.prems(2)])
  then have m1: "m1 = m" by simp
  have ih: "builderInv (m', s') \<and> m' = m \<and> sameStatics s1 s' \<and> sameInOut s1 s'
    \<and> (\<forall>e \<in> set es. m (cy_source e) \<noteq> None \<and> m (cy_target e) \<noteq> None)
    \<and> edges s' = edges s1 @ map (\<lambda>e. \<lparr>source = the (m (cy_source e)), target = the (m (cy_target e)),
           isIntraCluster = (clusterID (nodes s1 ! the (m (cy_source e))) = clusterID (nodes s1 ! the (m (cy_target e)))
              \<and> clusterID (nodes s1 ! the (m (cy_source e))) \<noteq> Some (- 1))\<rparr>)
         (filter (\<lambda>e. m (cy_source e) \<noteq> m (cy_target e)) es)"
  proof -
    have b2: "forEachE addEdge es (m, s1) = Inr (m', s')" using b(2) b1 m1 by simp
    have inv1: "builderInv (m, s1)" using step m1 by simp
    show ?thesis by (rule Cons.IH[OF b2 inv1])
  qed
  have c: "\<And>k. clusterID (nodes s1 ! k) = clusterID (nodes s ! k)"
    using step by (simp add: sameStatics_def)
  from addEdge_result[OF b'] obtain sn tn where
    r: "m (cy_source e) = Some sn" "m (cy_target e) = Some tn"
    and eff: "if sn = tn then s1 = s
      else edges s1 = edges s @ [\<lparr>source = sn, target = tn,
              isIntraCluster = (clusterID (nodes s ! sn) = clusterID (nodes s ! tn)
                                \<and> clusterID (nodes s ! sn) \<noteq> Some (- 1))\<rparr>]"
    by (auto split: if_splits)
  have ed: "edges s1 = edges s @ (if sn = tn then [] else [\<lparr>source = sn, target = tn,
              isIntraCluster = (clusterID (nodes s ! sn) = clusterID (nodes s ! tn)
                                \<and> clusterID (nodes s ! sn) \<noteq> Some (- 1))\<rparr>])"
    using eff by (simp split: if_splits)
  have i1: "builderInv (m', s')" and i2: "m' = m" and i3: "sameStatics s1 s'" and i4: "sameInOut s1 s'"
    and i5: "\<forall>e \<in> set es. m (cy_source e) \<noteq> None \<and> m (cy_target e) \<noteq> None"
    and i6: "edges s' = edges s1 @ map (\<lambda>e. \<lparr>source = the (m (cy_source e)), target = the (m (cy_target e)),
           isIntraCluster = (clusterID (nodes s ! the (m (cy_source e))) = clusterID (nodes s ! the (m (cy_target e)))
              \<and> clusterID (nodes s ! the (m (cy_source e))) \<noteq> Some (- 1))\<rparr>)
         (filter (\<lambda>e. m (cy_source e) \<noteq> m (cy_target e)) es)"
    using ih unfolding c by blast+
  have j3: "sameStatics s s'" using step i3 by (blast intro: sameStatics_trans)
  have j4: "sameInOut s s'" using step i4 by (blast intro: sameInOut_trans)
  have j5: "\<forall>x \<in> set (e # es). m (cy_source x) \<noteq> None \<and> m (cy_target x) \<noteq> None"
    using i5 r by simp
  have j6: "edges s' = edges s @ map (\<lambda>e. \<lparr>source = the (m (cy_source e)), target = the (m (cy_target e)),
           isIntraCluster = (clusterID (nodes s ! the (m (cy_source e))) = clusterID (nodes s ! the (m (cy_target e)))
              \<and> clusterID (nodes s ! the (m (cy_source e))) \<noteq> Some (- 1))\<rparr>)
         (filter (\<lambda>e. m (cy_source e) \<noteq> m (cy_target e)) (e # es))"
    unfolding i6 ed using r by simp
  show ?case using i1 i2 j3 j4 j5 j6 by blast
qed

text \<open>Phases 4 and 5: the lists of the manager and the out-nodes.\<close>

lemma populateReferences_frame:
  "nodes (populateReferences s) = nodes s" "circles (populateReferences s) = circles s"
  "edges (populateReferences s) = edges s" "gmEdges (populateReferences s) = gmEdges s"
  by (simp_all add: populateReferences_def)

lemma populateReferences_inv:
  "builderInv (m, s) \<Longrightarrow> builderInv (m, populateReferences s)"
  by (simp add: builderInv_def circlesInv_def placeholdersInv_def tableInv_def edgesInv_def
      resolvable_def populateReferences_frame)

lemma moveToOutNodes_result:
  assumes "moveToOutNodes n s = Inr s'"
  shows "\<exists>c. owner (nodes s ! n) = Some (CircleGraph c) \<and>
     s' = (if n \<in> set (inNodes (circles s ! c))
           then s\<lparr>circles := (circles s)[c := (circles s ! c)\<lparr>inNodes := remove1 n (inNodes (circles s ! c)),
                                                              outNodes := outNodes (circles s ! c) @ [n]\<rparr>]\<rparr>
           else s)"
  using assms
  by (auto simp: moveToOutNodes_def Let_def split: option.splits graph_ref.splits if_splits)

lemma moveToOutNodes_inv:
  assumes "moveToOutNodes n s = Inr s'" "circlesInv s" "resolvable s n"
  shows "circlesInv s' \<and> sameStatics s s' \<and> nodes s' = nodes s \<and> edges s' = edges s
     \<and> gmEdges s' = gmEdges s
     \<and> (\<forall>d. set (inNodes (circles s' ! d)) \<subseteq> set (inNodes (circles s ! d)))
     \<and> (\<forall>d. owner (nodes s' ! n) = Some (CircleGraph d) \<longrightarrow> n \<notin> set (inNodes (circles s' ! d)))"
proof -
  from moveToOutNodes_result[OF assms(1)] obtain c where
    o: "owner (nodes s ! n) = Some (CircleGraph c)"
    and s': "s' = (if n \<in> set (inNodes (circles s ! c))
           then s\<lparr>circles := (circles s)[c := (circles s ! c)\<lparr>inNodes := remove1 n (inNodes (circles s ! c)),
                                                              outNodes := outNodes (circles s ! c) @ [n]\<rparr>]\<rparr>
           else s)"
    by blast
  have c: "c < length (circles s)" using assms(3) o by (auto simp: resolvable_def)
  show ?thesis
  proof (cases "n \<in> set (inNodes (circles s ! c))")
    case False
    then have "s' = s" using s' by simp
    then show ?thesis using assms(2) o False by (simp add: sameStatics_refl)
  next
    case True
    let ?x = "(circles s ! c)\<lparr>inNodes := remove1 n (inNodes (circles s ! c)),
                              outNodes := outNodes (circles s ! c) @ [n]\<rparr>"
    have s'': "s' = s\<lparr>circles := (circles s)[c := ?x]\<rparr>" using s' True by simp
    note old = circlesInvD[OF assms(2) c]
    have nout: "n \<notin> set (outNodes (circles s ! c))" using old(3) True by blast
    have nth: "\<And>d. circles s' ! d = (if d = c then ?x else circles s ! d)"
      unfolding s'' using c by (simp add: nth_list_update)
    have 1: "circlesInv s'"
      unfolding circlesInv_def
    proof (intro allI impI)
      fix d
      assume "d < length (circles s')"
      then have d: "d < length (circles s)" unfolding s'' by simp
      note od = circlesInvD[OF assms(2) d]
      have md: "\<forall>k \<in> set (onCircleNodes (circles s ! d)).
              k < length (nodes s) \<and> clusterID (nodes s ! k) = Some (int d)
              \<and> owner (nodes s ! k) = Some (CircleGraph d)"
        using circlesInv_mem[OF assms(2) d] by blast
      have ns: "nodes s' = nodes s" unfolding s'' by simp
      show "distinct (inNodes (circles s' ! d)) \<and> distinct (outNodes (circles s' ! d))
        \<and> set (inNodes (circles s' ! d)) \<inter> set (outNodes (circles s' ! d)) = {}
        \<and> set (inNodes (circles s' ! d)) \<union> set (outNodes (circles s' ! d))
            = set (onCircleNodes (circles s' ! d))
        \<and> (\<forall>k \<in> set (onCircleNodes (circles s' ! d)).
              k < length (nodes s') \<and> clusterID (nodes s' ! k) = Some (int d)
              \<and> owner (nodes s' ! k) = Some (CircleGraph d))"
      proof (cases "d = c")
        case False
        then show ?thesis unfolding nth ns using od md by simp
      next
        case eq: True
        have a: "distinct (remove1 n (inNodes (circles s ! c)))" using old(1) by simp
        have b: "distinct (outNodes (circles s ! c) @ [n])" using old(2) nout by simp
        have st: "set (remove1 n (inNodes (circles s ! c))) = set (inNodes (circles s ! c)) - {n}"
          using old(1) by simp
        have cc: "set (remove1 n (inNodes (circles s ! c))) \<inter> set (outNodes (circles s ! c) @ [n]) = {}"
          unfolding st using old(3) by auto
        have dd: "set (remove1 n (inNodes (circles s ! c))) \<union> set (outNodes (circles s ! c) @ [n])
            = set (onCircleNodes (circles s ! c))"
          unfolding st using old(4) True by auto
        show ?thesis unfolding nth ns eq using a b cc dd md eq by simp
      qed
    qed
    have 2: "sameStatics s s'"
      unfolding sameStatics_def nth unfolding s'' by simp
    have 3: "\<forall>d. set (inNodes (circles s' ! d)) \<subseteq> set (inNodes (circles s ! d))"
      unfolding nth using set_remove1_subset[of n "inNodes (circles s ! c)"] by simp
    have 4: "\<forall>d. owner (nodes s' ! n) = Some (CircleGraph d) \<longrightarrow> n \<notin> set (inNodes (circles s' ! d))"
    proof (intro allI impI)
      fix d
      assume "owner (nodes s' ! n) = Some (CircleGraph d)"
      then have "d = c" using o unfolding s'' by simp
      then show "n \<notin> set (inNodes (circles s' ! d))"
        unfolding nth using old(1) by simp
    qed
    show ?thesis using 1 2 3 4 unfolding s'' by simp
  qed
qed

lemma notInNode_mono:
  assumes "notInNode s n" "nodes s' = nodes s"
    "\<forall>d. set (inNodes (circles s' ! d)) \<subseteq> set (inNodes (circles s ! d))"
  shows "notInNode s' n"
  using assms(1,3) unfolding notInNode_def assms(2) by blast

lemma optional_move_inv:
  assumes "(if b then moveToOutNodes n s else Inr s) = Inr s'" "circlesInv s" "resolvable s n"
  shows "circlesInv s' \<and> sameStatics s s' \<and> nodes s' = nodes s \<and> edges s' = edges s
     \<and> gmEdges s' = gmEdges s
     \<and> (\<forall>d. set (inNodes (circles s' ! d)) \<subseteq> set (inNodes (circles s ! d)))
     \<and> (b \<longrightarrow> notInNode s' n)"
proof (cases b)
  case True
  then have "moveToOutNodes n s = Inr s'" using assms(1) by simp
  from moveToOutNodes_inv[OF this assms(2,3)] show ?thesis
    unfolding notInNode_def by simp
next
  case False
  then have "s' = s" using assms(1) by simp
  then show ?thesis using assms(2) False by (simp add: sameStatics_refl)
qed

lemma determineOutNodes_inv:
  assumes "determineOutNodes e s = Inr s'" "circlesInv s"
    "resolvable s (source (edges s ! e))" "resolvable s (target (edges s ! e))"
  shows "circlesInv s' \<and> sameStatics s s' \<and> nodes s' = nodes s \<and> edges s' = edges s
     \<and> gmEdges s' = gmEdges s
     \<and> (\<forall>d. set (inNodes (circles s' ! d)) \<subseteq> set (inNodes (circles s ! d)))
     \<and> (clusterID (nodes s ! source (edges s ! e)) \<noteq> Some (- 1) \<longrightarrow> notInNode s' (source (edges s ! e)))
     \<and> (clusterID (nodes s ! target (edges s ! e)) \<noteq> Some (- 1) \<longrightarrow> notInNode s' (target (edges s ! e)))"
proof -
  let ?sn = "source (edges s ! e)" and ?tn = "target (edges s ! e)"
  let ?bs = "clusterID (nodes s ! ?sn) \<noteq> Some (- 1)" and ?bt = "clusterID (nodes s ! ?tn) \<noteq> Some (- 1)"
  from assms(1) obtain s1 where
    1: "(if ?bs then moveToOutNodes ?sn s else Inr s) = Inr s1"
    and 2: "(if ?bt then moveToOutNodes ?tn s1 else Inr s1) = Inr s'"
    unfolding determineOutNodes_def Let_def by (auto split: sum.splits)
  have a: "circlesInv s1" "sameStatics s s1" "nodes s1 = nodes s" "edges s1 = edges s"
     "gmEdges s1 = gmEdges s" "\<forall>d. set (inNodes (circles s1 ! d)) \<subseteq> set (inNodes (circles s ! d))"
     "?bs \<longrightarrow> notInNode s1 ?sn"
    using optional_move_inv[OF 1 assms(2,3)] by blast+
  have rt: "resolvable s1 ?tn" using assms(4) sameStatics_resolvable[OF a(2)] by simp
  have b: "circlesInv s'" "sameStatics s1 s'" "nodes s' = nodes s1" "edges s' = edges s1"
     "gmEdges s' = gmEdges s1" "\<forall>d. set (inNodes (circles s' ! d)) \<subseteq> set (inNodes (circles s1 ! d))"
     "?bt \<longrightarrow> notInNode s' ?tn"
    using optional_move_inv[OF 2 a(1) rt] by blast+
  have c: "?bs \<longrightarrow> notInNode s' ?sn"
    using a(7) notInNode_mono[OF _ b(3) b(6)] by blast
  have d: "\<forall>d. set (inNodes (circles s' ! d)) \<subseteq> set (inNodes (circles s ! d))"
    using a(6) b(6) by blast
  show ?thesis
    using b(1) sameStatics_trans[OF a(2) b(2)] a(3,4,5) b(3,4,5,7) c d by simp
qed

lemma outNodes_phase:
  assumes "forEachE determineOutNodes js s = Inr s'" "circlesInv s" "edgesInv s"
    "\<forall>j \<in> set js. j < length (edges s)"
  shows "circlesInv s' \<and> sameStatics s s' \<and> nodes s' = nodes s \<and> edges s' = edges s
     \<and> gmEdges s' = gmEdges s
     \<and> (\<forall>d. set (inNodes (circles s' ! d)) \<subseteq> set (inNodes (circles s ! d)))
     \<and> (\<forall>j \<in> set js.
          (clusterID (nodes s ! source (edges s ! j)) \<noteq> Some (- 1) \<longrightarrow> notInNode s' (source (edges s ! j)))
          \<and> (clusterID (nodes s ! target (edges s ! j)) \<noteq> Some (- 1) \<longrightarrow> notInNode s' (target (edges s ! j))))"
  using assms
proof (induction js arbitrary: s)
  case Nil
  then show ?case by (simp add: sameStatics_refl)
next
  case (Cons j js)
  from Cons.prems(1) obtain s1 where
    1: "determineOutNodes j s = Inr s1" and 2: "forEachE determineOutNodes js s1 = Inr s'"
    by (auto split: sum.splits)
  have j: "j < length (edges s)" using Cons.prems(4) by simp
  have r: "resolvable s (source (edges s ! j))" "resolvable s (target (edges s ! j))"
    using Cons.prems(3) j unfolding edgesInv_def by blast+
  have a: "circlesInv s1" "sameStatics s s1" "nodes s1 = nodes s" "edges s1 = edges s"
     "gmEdges s1 = gmEdges s" "\<forall>d. set (inNodes (circles s1 ! d)) \<subseteq> set (inNodes (circles s ! d))"
     "clusterID (nodes s ! source (edges s ! j)) \<noteq> Some (- 1) \<longrightarrow> notInNode s1 (source (edges s ! j))"
     "clusterID (nodes s ! target (edges s ! j)) \<noteq> Some (- 1) \<longrightarrow> notInNode s1 (target (edges s ! j))"
    using determineOutNodes_inv[OF 1 Cons.prems(2) r] by blast+
  have e1: "edgesInv s1" using sameStatics_edgesInv[OF a(2,4,5)] Cons.prems(3) by simp
  have js: "\<forall>j \<in> set js. j < length (edges s1)" using Cons.prems(4) a(4) by simp
  have b: "circlesInv s'" "sameStatics s1 s'" "nodes s' = nodes s1" "edges s' = edges s1"
     "gmEdges s' = gmEdges s1" "\<forall>d. set (inNodes (circles s' ! d)) \<subseteq> set (inNodes (circles s1 ! d))"
     "\<forall>j \<in> set js.
          (clusterID (nodes s1 ! source (edges s1 ! j)) \<noteq> Some (- 1) \<longrightarrow> notInNode s' (source (edges s1 ! j)))
          \<and> (clusterID (nodes s1 ! target (edges s1 ! j)) \<noteq> Some (- 1) \<longrightarrow> notInNode s' (target (edges s1 ! j)))"
    using Cons.IH[OF 2 a(1) e1 js] by blast+
  have hd: "(clusterID (nodes s ! source (edges s ! j)) \<noteq> Some (- 1) \<longrightarrow> notInNode s' (source (edges s ! j)))
          \<and> (clusterID (nodes s ! target (edges s ! j)) \<noteq> Some (- 1) \<longrightarrow> notInNode s' (target (edges s ! j)))"
    using a(7,8) notInNode_mono[OF _ b(3) b(6)] by blast
  have tl: "\<forall>j \<in> set js.
          (clusterID (nodes s ! source (edges s ! j)) \<noteq> Some (- 1) \<longrightarrow> notInNode s' (source (edges s ! j)))
          \<and> (clusterID (nodes s ! target (edges s ! j)) \<noteq> Some (- 1) \<longrightarrow> notInNode s' (target (edges s ! j)))"
    using b(7) unfolding a(3) a(4) .
  have d: "\<forall>d. set (inNodes (circles s' ! d)) \<subseteq> set (inNodes (circles s ! d))"
    using a(6) b(6) by blast
  show ?case
    using b(1) sameStatics_trans[OF a(2) b(2)] a(3,4,5) b(3,4,5) d hd tl by simp
qed

text \<open>The whole builder, from a new layout.\<close>

lemma new_CiSELayout_inv: "nodesInv (Map.empty, new_CiSELayout st ph)"
  by (simp add: nodesInv_def circlesInv_def placeholdersInv_def tableInv_def new_CiSELayout_def)

lemma nodesInv_builderInv: "nodesInv b \<Longrightarrow> builderInv b"
  by (cases b) (simp add: nodesInv_def builderInv_def edgesInv_empty)

lemma convertToClusteredGraph_phases:
  assumes "convertToClusteredGraph ns es clusters (new_CiSELayout st ph) = Inr (m, s)"
  obtains s2 where "builderInv (m, s2)" and "circlesInv s" and "sameStatics s2 s"
    and "nodes s = nodes s2" and "edges s = edges s2" and "gmEdges s = gmEdges s2"
    and "length (circles s) = length clusters"
    and "\<forall>e \<in> set es. m (cy_source e) \<noteq> None \<and> m (cy_target e) \<noteq> None"
    and "edges s2 = map (\<lambda>e. \<lparr>source = the (m (cy_source e)), target = the (m (cy_target e)),
           isIntraCluster = (clusterID (nodes s2 ! the (m (cy_source e))) = clusterID (nodes s2 ! the (m (cy_target e)))
              \<and> clusterID (nodes s2 ! the (m (cy_source e))) \<noteq> Some (- 1))\<rparr>)
         (filter (\<lambda>e. m (cy_source e) \<noteq> m (cy_target e)) es)"
    and "\<forall>j \<in> set (gmEdges s).
          (clusterID (nodes s ! source (edges s ! j)) \<noteq> Some (- 1) \<longrightarrow> notInNode s (source (edges s ! j)))
          \<and> (clusterID (nodes s ! target (edges s ! j)) \<noteq> Some (- 1) \<longrightarrow> notInNode s (target (edges s ! j)))"
proof -
  let ?s0 = "new_CiSELayout st ph"
  from assms obtain b1 s2 where
    p1: "forEachE (addCluster (idToCytoscapeNode ns)) (enumerate 0 clusters) (Map.empty, ?s0) = Inr b1"
    and p3: "forEachE addEdge es (fold (addUnclustered clusters) ns b1) = Inr (m, s2)"
    and p5: "forEachE determineOutNodes (gmEdges s2) (populateReferences s2) = Inr s"
    unfolding convertToClusteredGraph_def by (auto split: sum.splits prod.splits)
  have l0: "length (circles (snd (Map.empty :: string \<rightharpoonup> nref, ?s0))) = 0"
    by (simp add: new_CiSELayout_def)
  have i1: "nodesInv b1 \<and> length (circles (snd b1)) = length clusters"
    using clusters_inv[of "idToCytoscapeNode ns" "(Map.empty, ?s0)" clusters b1] p1 l0
      new_CiSELayout_inv[of st ph] by simp
  let ?b2 = "fold (addUnclustered clusters) ns b1"
  have i2: "nodesInv ?b2 \<and> length (circles (snd ?b2)) = length clusters"
    using unclustered_inv[of b1 clusters ns] i1 by simp
  obtain m2 t2 where b2: "?b2 = (m2, t2)" by (cases ?b2)
  have e2: "edges t2 = []" using i2 b2 by (simp add: nodesInv_def)
  have inv2: "builderInv (m2, t2)" using nodesInv_builderInv[of ?b2] i2 b2 by simp
  have p3': "forEachE addEdge es (m2, t2) = Inr (m, s2)" using p3 b2 by simp
  note ph3 = edges_phase[OF p3' inv2]
  have mm: "m = m2" and i3': "builderInv (m, s2)" and st3: "sameStatics t2 s2"
    and r3': "\<forall>e \<in> set es. m2 (cy_source e) \<noteq> None \<and> m2 (cy_target e) \<noteq> None"
    and ed3': "edges s2 = edges t2 @ map (\<lambda>e. \<lparr>source = the (m2 (cy_source e)), target = the (m2 (cy_target e)),
           isIntraCluster = (clusterID (nodes t2 ! the (m2 (cy_source e))) = clusterID (nodes t2 ! the (m2 (cy_target e)))
              \<and> clusterID (nodes t2 ! the (m2 (cy_source e))) \<noteq> Some (- 1))\<rparr>)
         (filter (\<lambda>e. m2 (cy_source e) \<noteq> m2 (cy_target e)) es)"
    using ph3 by blast+
  have i3: "builderInv (m, s2)" by (rule i3')
  have l3: "length (circles s2) = length clusters"
    using st3 i2 b2 by (simp add: sameStatics_def)
  have c3: "\<And>k. clusterID (nodes t2 ! k) = clusterID (nodes s2 ! k)"
    using st3 by (simp add: sameStatics_def)
  have r3: "\<forall>e \<in> set es. m (cy_source e) \<noteq> None \<and> m (cy_target e) \<noteq> None"
    using r3' unfolding mm .
  have ed3: "edges s2 = map (\<lambda>e. \<lparr>source = the (m (cy_source e)), target = the (m (cy_target e)),
           isIntraCluster = (clusterID (nodes s2 ! the (m (cy_source e))) = clusterID (nodes s2 ! the (m (cy_target e)))
              \<and> clusterID (nodes s2 ! the (m (cy_source e))) \<noteq> Some (- 1))\<rparr>)
         (filter (\<lambda>e. m (cy_source e) \<noteq> m (cy_target e)) es)"
    using ed3' e2 unfolding c3 mm by simp
  let ?s4 = "populateReferences s2"
  have i4: "builderInv (m, ?s4)" using i3 by (rule populateReferences_inv)
  have c4: "circlesInv ?s4" "edgesInv ?s4" using i4 by (simp_all add: builderInv_def)
  have g4: "\<forall>j \<in> set (gmEdges s2). j < length (edges ?s4)"
    using i3 by (simp add: builderInv_def edgesInv_def populateReferences_frame)
  note ph5 = outNodes_phase[OF p5 c4 g4]
  have st5: "sameStatics s2 s"
    using ph5 by (simp add: sameStatics_def populateReferences_frame)
  have f: "circlesInv s" "nodes s = nodes s2" "edges s = edges s2" "gmEdges s = gmEdges s2"
    using ph5 by (simp_all add: populateReferences_frame)
  have l5: "length (circles s) = length clusters"
    using st5 l3 by (simp add: sameStatics_def)
  have mv: "\<forall>j \<in> set (gmEdges s).
          (clusterID (nodes s ! source (edges s ! j)) \<noteq> Some (- 1) \<longrightarrow> notInNode s (source (edges s ! j)))
          \<and> (clusterID (nodes s ! target (edges s ! j)) \<noteq> Some (- 1) \<longrightarrow> notInNode s (target (edges s ! j)))"
    using ph5 by (simp add: populateReferences_frame)
  show ?thesis
    by (rule that[OF i3 f(1) st5 f(2) f(3) f(4) l5 r3 ed3 mv])
qed

lemma example_run:
  "\<exists>m. convertToClusteredGraph exInputNodes exInputEdges exClusters (new_CiSELayout None None)
          = Inr (m, exLayout)
       \<and> m ''a'' = Some 1 \<and> m ''b'' = Some 2 \<and> m ''c'' = Some 4 \<and> m ''d'' = Some 5"
  by (simp add: convertToClusteredGraph_def exInputNodes_def exInputEdges_def exClusters_def
      exCyNode_def new_CiSELayout_def exLayout_def exPlaceholder_def exMember_def exUnclustered_def exCircle_def
      idToCytoscapeNode_def hashMapPut_def objectPrototypeKeys_def addCluster_def addClusterNode_def addMember_def addUnclustered_def
      addEdge_def gm_add_edge_def graph_add_edge_def addIncident_def populateReferences_def
      getAllNodes_def determineOutNodes_def moveToOutNodes_def newNode_def newCiSEOnCircleNode_def
      newEdge_def new_CiSECircle_def enumerate_eq_zip Let_def DEFAULT_GRAPH_MARGIN_def upt_rec)


text \<open>
  C7.  When the builder returns, every input edge has both ends in the lookup table, and
  the edges made are, in the order of the input, one edge for each input edge whose ends
  resolve to two different nodes: from the source node to the target node, intra-cluster
  iff the two nodes have the same cluster id and that id is not \<open>-1\<close>.  An input edge
  whose ends resolve to the same node makes no edge.
\<close>

theorem convertToClusteredGraph_edges:
  assumes "convertToClusteredGraph ns es clusters (new_CiSELayout st ph) = Inr (idToLNode, s)"
  shows "(\<forall>e \<in> set es. idToLNode (cy_source e) \<noteq> None \<and> idToLNode (cy_target e) \<noteq> None)
    \<and> edges s =
        map (\<lambda>e. \<lparr>source = the (idToLNode (cy_source e)), target = the (idToLNode (cy_target e)),
                  isIntraCluster =
                    (clusterID (nodes s ! the (idToLNode (cy_source e)))
                       = clusterID (nodes s ! the (idToLNode (cy_target e)))
                     \<and> clusterID (nodes s ! the (idToLNode (cy_source e))) \<noteq> Some (- 1))\<rparr>)
          (filter (\<lambda>e. idToLNode (cy_source e) \<noteq> idToLNode (cy_target e)) es)"
proof -
  from assms obtain s2 where
    inv2: "builderInv (idToLNode, s2)" and ci: "circlesInv s" and st: "sameStatics s2 s"
    and n: "nodes s = nodes s2" and e: "edges s = edges s2" and g: "gmEdges s = gmEdges s2"
    and len: "length (circles s) = length clusters"
    and r: "\<forall>e \<in> set es. idToLNode (cy_source e) \<noteq> None \<and> idToLNode (cy_target e) \<noteq> None"
    and ed: "edges s2 = map (\<lambda>e. \<lparr>source = the (idToLNode (cy_source e)), target = the (idToLNode (cy_target e)),
           isIntraCluster = (clusterID (nodes s2 ! the (idToLNode (cy_source e))) = clusterID (nodes s2 ! the (idToLNode (cy_target e)))
              \<and> clusterID (nodes s2 ! the (idToLNode (cy_source e))) \<noteq> Some (- 1))\<rparr>)
         (filter (\<lambda>e. idToLNode (cy_source e) \<noteq> idToLNode (cy_target e)) es)"
    and moved: "\<forall>j \<in> set (gmEdges s).
          (clusterID (nodes s ! source (edges s ! j)) \<noteq> Some (- 1) \<longrightarrow> notInNode s (source (edges s ! j)))
          \<and> (clusterID (nodes s ! target (edges s ! j)) \<noteq> Some (- 1) \<longrightarrow> notInNode s (target (edges s ! j)))"
    by (rule convertToClusteredGraph_phases)
  show ?thesis using r ed unfolding n e by blast
qed

text \<open>
  In the worked example the edges \<open>a-b\<close> (intra-cluster), \<open>b-c\<close> and \<open>c-d\<close>
  (inter-cluster) are made, and none for the self-loop \<open>a-a\<close>.
\<close>

theorem convertToClusteredGraph_edges_witness:
  "\<exists>m. convertToClusteredGraph exInputNodes exInputEdges exClusters (new_CiSELayout None None)
          = Inr (m, exLayout)
     \<and> edges exLayout =
        map (\<lambda>e. \<lparr>source = the (m (cy_source e)), target = the (m (cy_target e)),
                  isIntraCluster =
                    (clusterID (nodes exLayout ! the (m (cy_source e)))
                       = clusterID (nodes exLayout ! the (m (cy_target e)))
                     \<and> clusterID (nodes exLayout ! the (m (cy_source e))) \<noteq> Some (- 1))\<rparr>)
          (filter (\<lambda>e. m (cy_source e) \<noteq> m (cy_target e)) exInputEdges)
     \<and> edges exLayout = [\<lparr>source = 1, target = 2, isIntraCluster = True\<rparr>,
                          \<lparr>source = 2, target = 4, isIntraCluster = False\<rparr>,
                          \<lparr>source = 4, target = 5, isIntraCluster = False\<rparr>]"
proof -
  from example_run obtain m where
    run: "convertToClusteredGraph exInputNodes exInputEdges exClusters (new_CiSELayout None None)
          = Inr (m, exLayout)"
    by blast
  have "edges exLayout = [\<lparr>source = 1, target = 2, isIntraCluster = True\<rparr>,
                          \<lparr>source = 2, target = 4, isIntraCluster = False\<rparr>,
                          \<lparr>source = 4, target = 5, isIntraCluster = False\<rparr>]"
    by (simp add: exLayout_def)
  then show ?thesis
    using run convertToClusteredGraph_edges[OF run] by blast
qed

text \<open>
  C6.  When the builder returns, in every circle the in-nodes and the out-nodes are
  disjoint and together are the on-circle nodes; no node is listed twice among the
  out-nodes (nor among the in-nodes), so no node was moved twice; and each end of an
  inter-cluster edge that is an on-circle node of the circle is among its out-nodes.
\<close>

theorem convertToClusteredGraph_out_nodes:
  assumes "convertToClusteredGraph ns es clusters (new_CiSELayout st ph) = Inr (idToLNode, s)"
  shows "\<forall>c<length (circles s).
           set (inNodes (circles s ! c)) \<inter> set (outNodes (circles s ! c)) = {}
           \<and> set (inNodes (circles s ! c)) \<union> set (outNodes (circles s ! c))
               = set (onCircleNodes (circles s ! c))
           \<and> distinct (outNodes (circles s ! c)) \<and> distinct (inNodes (circles s ! c))
           \<and> (\<forall>j<length (edges s). \<not> isIntraCluster (edges s ! j) \<longrightarrow>
                 (source (edges s ! j) \<in> set (onCircleNodes (circles s ! c))
                    \<longrightarrow> source (edges s ! j) \<in> set (outNodes (circles s ! c)))
                 \<and> (target (edges s ! j) \<in> set (onCircleNodes (circles s ! c))
                    \<longrightarrow> target (edges s ! j) \<in> set (outNodes (circles s ! c))))"
proof (intro allI impI)
  fix c
  assume c: "c < length (circles s)"
  from assms obtain s2 where
    inv2: "builderInv (idToLNode, s2)" and ci: "circlesInv s" and st: "sameStatics s2 s"
    and n: "nodes s = nodes s2" and e: "edges s = edges s2" and g: "gmEdges s = gmEdges s2"
    and len: "length (circles s) = length clusters"
    and r: "\<forall>e \<in> set es. idToLNode (cy_source e) \<noteq> None \<and> idToLNode (cy_target e) \<noteq> None"
    and ed: "edges s2 = map (\<lambda>e. \<lparr>source = the (idToLNode (cy_source e)), target = the (idToLNode (cy_target e)),
           isIntraCluster = (clusterID (nodes s2 ! the (idToLNode (cy_source e))) = clusterID (nodes s2 ! the (idToLNode (cy_target e)))
              \<and> clusterID (nodes s2 ! the (idToLNode (cy_source e))) \<noteq> Some (- 1))\<rparr>)
         (filter (\<lambda>e. idToLNode (cy_source e) \<noteq> idToLNode (cy_target e)) es)"
    and moved: "\<forall>j \<in> set (gmEdges s).
          (clusterID (nodes s ! source (edges s ! j)) \<noteq> Some (- 1) \<longrightarrow> notInNode s (source (edges s ! j)))
          \<and> (clusterID (nodes s ! target (edges s ! j)) \<noteq> Some (- 1) \<longrightarrow> notInNode s (target (edges s ! j)))"
    by (rule convertToClusteredGraph_phases)
  have ei: "edgesInv s"
    using sameStatics_edgesInv[OF st e g] inv2 by (simp add: builderInv_def)
  note d = circlesInvD[OF ci c]
  have key: "x \<in> set (outNodes (circles s ! c))"
    if j: "j < length (edges s)" and ni: "\<not> isIntraCluster (edges s ! j)"
      and xy: "(x = source (edges s ! j) \<and> y = target (edges s ! j))
               \<or> (x = target (edges s ! j) \<and> y = source (edges s ! j))"
      and on: "x \<in> set (onCircleNodes (circles s ! c))" for j x y
  proof -
    have ox: "owner (nodes s ! x) = Some (CircleGraph c)" and cx: "clusterID (nodes s ! x) = Some (int c)"
      using circlesInv_mem[OF ci c on] by simp_all
    have ej: "resolvable s (source (edges s ! j))" "resolvable s (target (edges s ! j))"
      "isIntraCluster (edges s ! j) \<longleftrightarrow>
              clusterID (nodes s ! source (edges s ! j)) = clusterID (nodes s ! target (edges s ! j))
              \<and> clusterID (nodes s ! source (edges s ! j)) \<noteq> Some (- 1)"
      "\<not> isIntraCluster (edges s ! j)
              \<and> owner (nodes s ! source (edges s ! j)) \<noteq> owner (nodes s ! target (edges s ! j))
              \<longrightarrow> j \<in> set (gmEdges s)"
      using ei j unfolding edgesInv_def by blast+
    have ry: "resolvable s y" using ej(1,2) xy by blast
    have oy: "owner (nodes s ! y) \<noteq> Some (CircleGraph c)"
    proof
      assume h: "owner (nodes s ! y) = Some (CircleGraph c)"
      then have "y \<in> set (onCircleNodes (circles s ! c))"
        using ry unfolding resolvable_def by auto
      then have "clusterID (nodes s ! y) = Some (int c)"
        using circlesInv_mem[OF ci c] by simp
      then have "isIntraCluster (edges s ! j)"
        using ej(3) cx xy by auto
      then show False using ni by simp
    qed
    then have "owner (nodes s ! source (edges s ! j)) \<noteq> owner (nodes s ! target (edges s ! j))"
      using ox xy by auto
    then have "j \<in> set (gmEdges s)" using ej(4) ni by simp
    moreover have "clusterID (nodes s ! x) \<noteq> Some (- 1)" using cx by simp
    ultimately have "notInNode s x" using moved xy by blast
    then have "x \<notin> set (inNodes (circles s ! c))" using ox unfolding notInNode_def by blast
    then show ?thesis using on d(4) by blast
  qed
  have edges_ok: "\<forall>j<length (edges s). \<not> isIntraCluster (edges s ! j) \<longrightarrow>
                 (source (edges s ! j) \<in> set (onCircleNodes (circles s ! c))
                    \<longrightarrow> source (edges s ! j) \<in> set (outNodes (circles s ! c)))
                 \<and> (target (edges s ! j) \<in> set (onCircleNodes (circles s ! c))
                    \<longrightarrow> target (edges s ! j) \<in> set (outNodes (circles s ! c)))"
    using key by blast
  show "set (inNodes (circles s ! c)) \<inter> set (outNodes (circles s ! c)) = {}
           \<and> set (inNodes (circles s ! c)) \<union> set (outNodes (circles s ! c))
               = set (onCircleNodes (circles s ! c))
           \<and> distinct (outNodes (circles s ! c)) \<and> distinct (inNodes (circles s ! c))
           \<and> (\<forall>j<length (edges s). \<not> isIntraCluster (edges s ! j) \<longrightarrow>
                 (source (edges s ! j) \<in> set (onCircleNodes (circles s ! c))
                    \<longrightarrow> source (edges s ! j) \<in> set (outNodes (circles s ! c)))
                 \<and> (target (edges s ! j) \<in> set (onCircleNodes (circles s ! c))
                    \<longrightarrow> target (edges s ! j) \<in> set (outNodes (circles s ! c))))"
    using d edges_ok by blast
qed

text \<open>
  In the worked example the circle of \<open>a\<close> and \<open>b\<close> has the in-node \<open>a\<close> and the
  out-node \<open>b\<close>, and the circle of \<open>c\<close> has the out-node \<open>c\<close> only.
\<close>

theorem convertToClusteredGraph_out_nodes_witness:
  "\<exists>m. convertToClusteredGraph exInputNodes exInputEdges exClusters (new_CiSELayout None None)
          = Inr (m, exLayout)
     \<and> length (circles exLayout) = 2
     \<and> inNodes (circles exLayout ! 0) = [1] \<and> outNodes (circles exLayout ! 0) = [2]
     \<and> onCircleNodes (circles exLayout ! 0) = [1, 2]
     \<and> inNodes (circles exLayout ! 1) = [] \<and> outNodes (circles exLayout ! 1) = [4]
     \<and> set (inNodes (circles exLayout ! 0)) \<union> set (outNodes (circles exLayout ! 0))
         = set (onCircleNodes (circles exLayout ! 0))
     \<and> distinct (outNodes (circles exLayout ! 0))
     \<and> \<not> isIntraCluster (edges exLayout ! 1)
     \<and> source (edges exLayout ! 1) \<in> set (outNodes (circles exLayout ! 0))
     \<and> target (edges exLayout ! 1) \<in> set (outNodes (circles exLayout ! 1))"
proof -
  from example_run obtain m where
    run: "convertToClusteredGraph exInputNodes exInputEdges exClusters (new_CiSELayout None None)
          = Inr (m, exLayout)"
    by blast
  have l: "length (circles exLayout) = 2" "length (edges exLayout) = 3"
    by (simp_all add: exLayout_def)
  have v: "inNodes (circles exLayout ! 0) = [1]" "outNodes (circles exLayout ! 0) = [2]"
    "onCircleNodes (circles exLayout ! 0) = [1, 2]"
    "inNodes (circles exLayout ! 1) = []" "outNodes (circles exLayout ! 1) = [4]"
    "onCircleNodes (circles exLayout ! 1) = [4]"
    "\<not> isIntraCluster (edges exLayout ! 1)"
    "source (edges exLayout ! 1) = 2" "target (edges exLayout ! 1) = 4"
    by (simp_all add: exLayout_def exCircle_def)
  note t = convertToClusteredGraph_out_nodes[OF run, rule_format]
  have 0: "(0::nat) < length (circles exLayout)" "(1::nat) < length (circles exLayout)"
    "(1::nat) < length (edges exLayout)" using l by simp_all
  have a: "set (inNodes (circles exLayout ! 0)) \<union> set (outNodes (circles exLayout ! 0))
         = set (onCircleNodes (circles exLayout ! 0))"
    and b: "distinct (outNodes (circles exLayout ! 0))"
    using t[OF 0(1)] by blast+
  have c: "source (edges exLayout ! 1) \<in> set (outNodes (circles exLayout ! 0))"
    using t[OF 0(1)] 0(3) v(7) v(3) v(8) by simp
  have d: "target (edges exLayout ! 1) \<in> set (outNodes (circles exLayout ! 1))"
    using t[OF 0(2)] 0(3) v(7) v(6) v(9) by simp
  show ?thesis
    using run l(1) v(1-5) v(7) a b c d by blast
qed

text \<open>
  C3, as the code has it.  When the builder returns, every node with a child circle has
  no id; it does have a cluster id, the index of its circle, and the on-circle nodes of
  that circle have the same cluster id.
\<close>

theorem cluster_placeholder_has_cluster_id:
  assumes "convertToClusteredGraph ns es clusters (new_CiSELayout st ph) = Inr (idToLNode, s)"
  shows "\<forall>n<length (nodes s). \<forall>c. child (nodes s ! n) = Some c \<longrightarrow>
           ID (nodes s ! n) = None \<and> clusterID (nodes s ! n) = Some (int c)
           \<and> c < length (circles s) \<and> parent (circles s ! c) = Some n
           \<and> (\<forall>k \<in> set (onCircleNodes (circles s ! c)). clusterID (nodes s ! k) = Some (int c))"
proof (intro allI impI)
  fix n c
  assume nlt: "n < length (nodes s)" and ch: "child (nodes s ! n) = Some c"
  from assms obtain s2 where
    inv2: "builderInv (idToLNode, s2)" and ci: "circlesInv s" and st: "sameStatics s2 s"
    and n: "nodes s = nodes s2" and e: "edges s = edges s2" and g: "gmEdges s = gmEdges s2"
    and len: "length (circles s) = length clusters"
    and r: "\<forall>e \<in> set es. idToLNode (cy_source e) \<noteq> None \<and> idToLNode (cy_target e) \<noteq> None"
    and ed: "edges s2 = map (\<lambda>e. \<lparr>source = the (idToLNode (cy_source e)), target = the (idToLNode (cy_target e)),
           isIntraCluster = (clusterID (nodes s2 ! the (idToLNode (cy_source e))) = clusterID (nodes s2 ! the (idToLNode (cy_target e)))
              \<and> clusterID (nodes s2 ! the (idToLNode (cy_source e))) \<noteq> Some (- 1))\<rparr>)
         (filter (\<lambda>e. idToLNode (cy_source e) \<noteq> idToLNode (cy_target e)) es)"
    and moved: "\<forall>j \<in> set (gmEdges s).
          (clusterID (nodes s ! source (edges s ! j)) \<noteq> Some (- 1) \<longrightarrow> notInNode s (source (edges s ! j)))
          \<and> (clusterID (nodes s ! target (edges s ! j)) \<noteq> Some (- 1) \<longrightarrow> notInNode s (target (edges s ! j)))"
    by (rule convertToClusteredGraph_phases)
  have "placeholdersInv s"
    using sameStatics_placeholdersInv[OF st] inv2 by (simp add: builderInv_def)
  then have p: "ID (nodes s ! n) = None \<and> clusterID (nodes s ! n) = Some (int c)
        \<and> c < length (circles s) \<and> parent (circles s ! c) = Some n"
    using nlt ch unfolding placeholdersInv_def by blast
  then have "\<forall>k \<in> set (onCircleNodes (circles s ! c)). clusterID (nodes s ! k) = Some (int c)"
    using circlesInv_mem(2)[OF ci] by blast
  then show "ID (nodes s ! n) = None \<and> clusterID (nodes s ! n) = Some (int c)
           \<and> c < length (circles s) \<and> parent (circles s ! c) = Some n
           \<and> (\<forall>k \<in> set (onCircleNodes (circles s ! c)). clusterID (nodes s ! k) = Some (int c))"
    using p by blast
qed

text \<open>
  In the worked example the node 0 is the cluster node of the circle 0: it has no id and
  the cluster id 0, as the on-circle nodes 1 and 2 of that circle.
\<close>

theorem cluster_placeholder_has_cluster_id_witness:
  "\<exists>m. convertToClusteredGraph exInputNodes exInputEdges exClusters (new_CiSELayout None None)
          = Inr (m, exLayout)
     \<and> child (nodes exLayout ! 0) = Some 0
     \<and> ID (nodes exLayout ! 0) = None \<and> clusterID (nodes exLayout ! 0) = Some 0
     \<and> parent (circles exLayout ! 0) = Some 0
     \<and> onCircleNodes (circles exLayout ! 0) = [1, 2]
     \<and> clusterID (nodes exLayout ! 1) = Some 0 \<and> clusterID (nodes exLayout ! 2) = Some 0"
proof -
  from example_run obtain m where
    run: "convertToClusteredGraph exInputNodes exInputEdges exClusters (new_CiSELayout None None)
          = Inr (m, exLayout)"
    by blast
  have n: "(0::nat) < length (nodes exLayout)" by (simp add: exLayout_def)
  have ch: "child (nodes exLayout ! 0) = Some 0" by (simp add: exLayout_def exPlaceholder_def)
  have on: "onCircleNodes (circles exLayout ! 0) = [1, 2]" by (simp add: exLayout_def exCircle_def)
  from cluster_placeholder_has_cluster_id[OF run, rule_format, OF n ch]
  have "ID (nodes exLayout ! 0) = None \<and> clusterID (nodes exLayout ! 0) = Some (int 0)
           \<and> 0 < length (circles exLayout) \<and> parent (circles exLayout ! 0) = Some 0
           \<and> (\<forall>k \<in> set (onCircleNodes (circles exLayout ! 0)). clusterID (nodes exLayout ! k) = Some (int 0))" .
  then show ?thesis using run ch on by simp
qed

text \<open>
  C3 as stated fails: in the worked example the node 0, which has the child circle 0, has
  the cluster id 0.
\<close>

theorem cluster_placeholder_counterexample:
  "map_sum id snd
     (convertToClusteredGraph exInputNodes exInputEdges exClusters (new_CiSELayout None None))
     = Inr exLayout
   \<and> child (nodes exLayout ! 0) = Some 0
   \<and> clusterID (nodes exLayout ! 0) \<noteq> None"
proof -
  from example_run obtain m where
    run: "convertToClusteredGraph exInputNodes exInputEdges exClusters (new_CiSELayout None None)
          = Inr (m, exLayout)"
    by blast
  show ?thesis unfolding run by (simp add: exLayout_def exPlaceholder_def)
qed

section \<open>Properties of prepareCirclesForReversal\<close>

lemma getInterClusterEdges_memo:
  "interClusterEdges (snd (getInterClusterEdges ns es c)) = Some (fst (getInterClusterEdges ns es c))"
  "mayBeReversed (snd (getInterClusterEdges ns es c)) = mayBeReversed c"
  by (simp_all add: getInterClusterEdges_def Let_def split: option.splits)

lemma getInterClusterEdges_stored:
  "interClusterEdges c = Some l \<Longrightarrow> getInterClusterEdges ns es c = (l, c)"
  by (simp add: getInterClusterEdges_def)

lemma prepareCircle_flag:
  "\<exists>l. interClusterEdges (prepareCircle ns es c) = Some l
       \<and> (length l < 2 \<longrightarrow> \<not> mayBeReversed (prepareCircle ns es c))"
  by (simp add: prepareCircle_def Let_def computeOrderMatrix_def setMayNotBeReversed_def
      getInterClusterEdges_memo)

lemma prepareNode_frame:
  "nodes (prepareNode n s) = nodes s" "edges (prepareNode n s) = edges s"
  "length (circles (prepareNode n s)) = length (circles s)"
  "rootNodes (prepareNode n s) = rootNodes s"
  by (simp_all add: prepareNode_def split: option.splits)

lemma prepareNode_circle:
  assumes "c < length (circles s)"
  shows "circles (prepareNode n s) ! c =
     (if child (nodes s ! n) = Some c then prepareCircle (nodes s) (edges s) (circles s ! c)
      else circles s ! c)"
  using assms by (auto simp: prepareNode_def nth_list_update split: option.splits)

lemma fold_prepareNode_frame:
  "nodes (fold prepareNode ns s) = nodes s \<and> edges (fold prepareNode ns s) = edges s
   \<and> length (circles (fold prepareNode ns s)) = length (circles s)
   \<and> rootNodes (fold prepareNode ns s) = rootNodes s"
  by (induction ns arbitrary: s) (simp_all add: prepareNode_frame)

lemma fold_prepareNode_flag:
  assumes "c < length (circles s)"
    and "(\<exists>l. interClusterEdges (circles s ! c) = Some l
              \<and> (length l < 2 \<longrightarrow> \<not> mayBeReversed (circles s ! c)))
         \<or> (\<exists>n \<in> set ns. child (nodes s ! n) = Some c)"
  shows "\<exists>l. interClusterEdges (circles (fold prepareNode ns s) ! c) = Some l
              \<and> (length l < 2 \<longrightarrow> \<not> mayBeReversed (circles (fold prepareNode ns s) ! c))"
  using assms
proof (induction ns arbitrary: s)
  case Nil
  then show ?case by simp
next
  case (Cons n ns)
  let ?s1 = "prepareNode n s"
  have c1: "c < length (circles ?s1)" using Cons.prems(1) by (simp add: prepareNode_frame)
  have "(\<exists>l. interClusterEdges (circles ?s1 ! c) = Some l
              \<and> (length l < 2 \<longrightarrow> \<not> mayBeReversed (circles ?s1 ! c)))
         \<or> (\<exists>n \<in> set ns. child (nodes ?s1 ! n) = Some c)"
  proof (cases "child (nodes s ! n) = Some c")
    case True
    then have "circles ?s1 ! c = prepareCircle (nodes s) (edges s) (circles s ! c)"
      using prepareNode_circle[OF Cons.prems(1)] by simp
    then show ?thesis using prepareCircle_flag[of "nodes s" "edges s" "circles s ! c"] by simp
  next
    case False
    then have "circles ?s1 ! c = circles s ! c"
      using prepareNode_circle[OF Cons.prems(1)] by simp
    then show ?thesis using Cons.prems(2) False by (auto simp: prepareNode_frame)
  qed
  from Cons.IH[OF c1 this] show ?case by simp
qed

text \<open>
  C8.  After \<open>prepareCirclesForReversal\<close>, a circle that is the child of a node of the
  root graph (as every circle that the builder makes is) has its list of inter-cluster
  edges stored, and when that list, the one \<open>getInterClusterEdges\<close> returns, has fewer
  than 2 elements, \<open>mayBeReversed\<close> is false.
\<close>

theorem prepareCirclesForReversal_marks_non_reversible:
  assumes "c < length (circles s)" and "n \<in> set (rootNodes s)" and "child (nodes s ! n) = Some c"
  shows "length (fst (getInterClusterEdges (nodes (prepareCirclesForReversal s))
                        (edges (prepareCirclesForReversal s))
                        (circles (prepareCirclesForReversal s) ! c))) < 2
         \<longrightarrow> \<not> mayBeReversed (circles (prepareCirclesForReversal s) ! c)"
proof -
  let ?s' = "prepareCirclesForReversal s"
  have "\<exists>n \<in> set (rootNodes s). child (nodes s ! n) = Some c" using assms(2,3) by blast
  then obtain l where l: "interClusterEdges (circles ?s' ! c) = Some l"
    "length l < 2 \<longrightarrow> \<not> mayBeReversed (circles ?s' ! c)"
    using fold_prepareNode_flag[OF assms(1), of "rootNodes s"]
    unfolding prepareCirclesForReversal_def by blast
  show ?thesis
    using l by (simp add: getInterClusterEdges_stored[OF l(1)])
qed

text \<open>
  In the worked example the circle 0 has one inter-cluster edge (\<open>b-c\<close>) and the circle 1
  has two (\<open>b-c\<close> and \<open>c-d\<close>): the first becomes non-reversible, the second does not.
\<close>

theorem prepareCirclesForReversal_marks_non_reversible_witness:
  "0 < length (circles exLayout) \<and> 0 \<in> set (rootNodes exLayout)
   \<and> child (nodes exLayout ! 0) = Some 0
   \<and> fst (getInterClusterEdges (nodes (prepareCirclesForReversal exLayout))
             (edges (prepareCirclesForReversal exLayout))
             (circles (prepareCirclesForReversal exLayout) ! 0)) = [1]
   \<and> \<not> mayBeReversed (circles (prepareCirclesForReversal exLayout) ! 0)
   \<and> fst (getInterClusterEdges (nodes (prepareCirclesForReversal exLayout))
             (edges (prepareCirclesForReversal exLayout))
             (circles (prepareCirclesForReversal exLayout) ! 1)) = [1, 2]
   \<and> mayBeReversed (circles (prepareCirclesForReversal exLayout) ! 1)"
proof -
  have h: "0 < length (circles exLayout)" "0 \<in> set (rootNodes exLayout)"
    "child (nodes exLayout ! 0) = Some 0"
    by (simp_all add: exLayout_def exPlaceholder_def)
  have e: "fst (getInterClusterEdges (nodes (prepareCirclesForReversal exLayout))
             (edges (prepareCirclesForReversal exLayout))
             (circles (prepareCirclesForReversal exLayout) ! 0)) = [1]"
    "fst (getInterClusterEdges (nodes (prepareCirclesForReversal exLayout))
             (edges (prepareCirclesForReversal exLayout))
             (circles (prepareCirclesForReversal exLayout) ! 1)) = [1, 2]"
    "mayBeReversed (circles (prepareCirclesForReversal exLayout) ! 1)"
    by (simp_all add: prepareCirclesForReversal_def prepareNode_def prepareCircle_def
        getInterClusterEdges_def ext_getInterClusterEdges_def computeOrderMatrix_def
        setMayNotBeReversed_def exLayout_def exPlaceholder_def exMember_def exUnclustered_def exCircle_def Let_def)
  have "\<not> mayBeReversed (circles (prepareCirclesForReversal exLayout) ! 0)"
    using prepareCirclesForReversal_marks_non_reversible[OF h] e(1) by simp
  then show ?thesis using h e by simp
qed

section \<open>Properties of doStep2\<close>

text \<open>The two loops that write locations.\<close>

lemma setLocation_nth:
  "length (setLocation n p ns) = length ns"
  "setLocation n p ns ! k =
     (if k = n \<and> n < length ns then (ns ! n)\<lparr>rect_x := fst p, rect_y := snd p\<rparr> else ns ! k)"
proof -
  show "length (setLocation n p ns) = length ns" by (simp add: setLocation_def)
  show "setLocation n p ns ! k =
     (if k = n \<and> n < length ns then (ns ! n)\<lparr>rect_x := fst p, rect_y := snd p\<rparr> else ns ! k)"
  proof (cases "n < length ns")
    case True
    then show ?thesis by (simp add: setLocation_def nth_list_update)
  next
    case False
    then have "setLocation n p ns = ns" by (simp add: setLocation_def list_update_beyond)
    then show ?thesis using False by simp
  qed
qed

lemma fold_updateNonOnCircle_length:
  "length (fold (updateNonOnCircle m loc) xs ns) = length ns"
  by (induction xs arbitrary: ns) (simp_all add: updateNonOnCircle_def setLocation_nth split: option.splits)

lemma fold_updateNonOnCircle_nth:
  "fold (updateNonOnCircle m loc) xs ns ! k =
     (if k \<in> set xs \<and> k < length ns \<and> m k \<noteq> None
      then (ns ! k)\<lparr>rect_x := fst (loc (the (m k))), rect_y := snd (loc (the (m k)))\<rparr>
      else ns ! k)"
proof (induction xs arbitrary: ns)
  case Nil
  then show ?case by simp
next
  case (Cons x xs)
  let ?ns1 = "updateNonOnCircle m loc x ns"
  have l: "length ?ns1 = length ns"
    by (simp add: updateNonOnCircle_def setLocation_nth split: option.splits)
  have n: "?ns1 ! k = (if k = x \<and> k < length ns \<and> m k \<noteq> None
      then (ns ! k)\<lparr>rect_x := fst (loc (the (m k))), rect_y := snd (loc (the (m k)))\<rparr>
      else ns ! k)"
    by (auto simp: updateNonOnCircle_def setLocation_nth split: option.splits)
  show ?case
    using Cons.IH[of ?ns1] l n by auto
qed

lemma updateOnCircle_result:
  assumes "updateOnCircle cs n ns = Inr ns'"
  shows "\<exists>c p. owner (ns ! n) = Some (CircleGraph c) \<and> parent (cs ! c) = Some p
     \<and> ns' = setLocation n (rect_x (ns ! n) + rect_x (ns ! p), rect_y (ns ! n) + rect_y (ns ! p)) ns"
  using assms
  by (auto simp: updateOnCircle_def split: option.splits graph_ref.splits)

lemma forEachE_updateOnCircle:
  assumes "forEachE (updateOnCircle cs) xs ns = Inr ns'" "distinct xs"
    "\<forall>n \<in> set xs. \<forall>c p. owner (ns ! n) = Some (CircleGraph c) \<longrightarrow> parent (cs ! c) = Some p \<longrightarrow> p \<notin> set xs"
  shows "length ns' = length ns
    \<and> (\<forall>k. k \<notin> set xs \<longrightarrow> ns' ! k = ns ! k)
    \<and> (\<forall>k \<in> set xs. \<exists>c p. owner (ns ! k) = Some (CircleGraph c) \<and> parent (cs ! c) = Some p
          \<and> ns' ! k = (if k < length ns
                        then (ns ! k)\<lparr>rect_x := rect_x (ns ! k) + rect_x (ns ! p),
                                     rect_y := rect_y (ns ! k) + rect_y (ns ! p)\<rparr>
                        else ns ! k))"
  using assms
proof (induction xs arbitrary: ns)
  case Nil
  then show ?case by simp
next
  case (Cons x xs)
  from Cons.prems(1) obtain ns1 where
    1: "updateOnCircle cs x ns = Inr ns1" and 2: "forEachE (updateOnCircle cs) xs ns1 = Inr ns'"
    by (auto split: sum.splits)
  from updateOnCircle_result[OF 1] obtain c p where
    o: "owner (ns ! x) = Some (CircleGraph c)" and pa: "parent (cs ! c) = Some p"
    and ns1: "ns1 = setLocation x (rect_x (ns ! x) + rect_x (ns ! p), rect_y (ns ! x) + rect_y (ns ! p)) ns"
    by blast
  have l1: "length ns1 = length ns" unfolding ns1 by (simp add: setLocation_nth)
  have n1: "\<And>k. ns1 ! k = (if k = x \<and> x < length ns
      then (ns ! x)\<lparr>rect_x := rect_x (ns ! x) + rect_x (ns ! p), rect_y := rect_y (ns ! x) + rect_y (ns ! p)\<rparr>
      else ns ! k)"
    unfolding ns1 by (simp add: setLocation_nth)
  have ow: "\<And>k. owner (ns1 ! k) = owner (ns ! k)" unfolding n1 by simp
  have x: "x \<notin> set xs" and d: "distinct xs" using Cons.prems(2) by simp_all
  have px: "p \<noteq> x" "p \<notin> set xs" using Cons.prems(3) o pa by auto
  have h3: "\<forall>n \<in> set xs. \<forall>c p. owner (ns1 ! n) = Some (CircleGraph c) \<longrightarrow> parent (cs ! c) = Some p \<longrightarrow> p \<notin> set xs"
    using Cons.prems(3) unfolding ow by auto
  note ih = Cons.IH[OF 2 d h3]
  have a: "length ns' = length ns" using ih l1 by simp
  have b: "\<forall>k. k \<notin> set (x # xs) \<longrightarrow> ns' ! k = ns ! k"
    using ih n1 by simp
  have cx: "ns' ! x = (if x < length ns
                        then (ns ! x)\<lparr>rect_x := rect_x (ns ! x) + rect_x (ns ! p),
                                     rect_y := rect_y (ns ! x) + rect_y (ns ! p)\<rparr>
                        else ns ! x)"
    using ih x n1 by simp
  have c: "\<forall>k \<in> set (x # xs). \<exists>c p. owner (ns ! k) = Some (CircleGraph c) \<and> parent (cs ! c) = Some p
          \<and> ns' ! k = (if k < length ns
                        then (ns ! k)\<lparr>rect_x := rect_x (ns ! k) + rect_x (ns ! p),
                                     rect_y := rect_y (ns ! k) + rect_y (ns ! p)\<rparr>
                        else ns ! k)"
  proof
    fix k
    assume k: "k \<in> set (x # xs)"
    show "\<exists>c p. owner (ns ! k) = Some (CircleGraph c) \<and> parent (cs ! c) = Some p
          \<and> ns' ! k = (if k < length ns
                        then (ns ! k)\<lparr>rect_x := rect_x (ns ! k) + rect_x (ns ! p),
                                     rect_y := rect_y (ns ! k) + rect_y (ns ! p)\<rparr>
                        else ns ! k)"
    proof (cases "k = x")
      case True
      then show ?thesis using o pa cx by blast
    next
      case False
      then have kx: "k \<in> set xs" using k by simp
      from ih kx obtain c' p' where
        o': "owner (ns1 ! k) = Some (CircleGraph c')" and pa': "parent (cs ! c') = Some p'"
        and e: "ns' ! k = (if k < length ns1
                        then (ns1 ! k)\<lparr>rect_x := rect_x (ns1 ! k) + rect_x (ns1 ! p'),
                                     rect_y := rect_y (ns1 ! k) + rect_y (ns1 ! p')\<rparr>
                        else ns1 ! k)"
        by blast
      have o'': "owner (ns ! k) = Some (CircleGraph c')" using o' unfolding ow .
      have "p' \<notin> set (x # xs)" using Cons.prems(3) k o'' pa' by blast
      then have p'x: "p' \<noteq> x" by simp
      have "ns' ! k = (if k < length ns
                        then (ns ! k)\<lparr>rect_x := rect_x (ns ! k) + rect_x (ns ! p'),
                                     rect_y := rect_y (ns ! k) + rect_y (ns ! p')\<rparr>
                        else ns ! k)"
        using e False p'x unfolding l1 n1 by simp
      then show ?thesis using o'' pa' by blast
    qed
  qed
  show ?case using a b c by blast
qed

lemma putCoseNode_apply: "putCoseNode (k, a) m x = (if x = a then Some k else m x)"
  by (simp add: putCoseNode_def)

lemma putCoseNode_other:
  "x \<notin> set xs \<Longrightarrow> fold putCoseNode (enumerate k xs) m0 x = m0 x"
proof (induction xs arbitrary: k m0)
  case Nil
  then show ?case by simp
next
  case (Cons a xs)
  have "fold putCoseNode (enumerate (Suc k) xs) (putCoseNode (k, a) m0) x = putCoseNode (k, a) m0 x"
    using Cons.IH[of "Suc k" "putCoseNode (k, a) m0"] Cons.prems by simp
  then show ?case using Cons.prems by (simp add: putCoseNode_apply)
qed

lemma putCoseNode_index:
  assumes "distinct xs" "i < length xs"
  shows "fold putCoseNode (enumerate k xs) m0 (xs ! i) = Some (k + i)"
  using assms
proof (induction xs arbitrary: k m0 i)
  case Nil
  then show ?case by simp
next
  case (Cons a xs)
  show ?case
  proof (cases i)
    case 0
    have "a \<notin> set xs" using Cons.prems(1) by simp
    then have "fold putCoseNode (enumerate (Suc k) xs) (putCoseNode (k, a) m0) a = putCoseNode (k, a) m0 a"
      by (rule putCoseNode_other)
    then show ?thesis using 0 by (simp add: putCoseNode_apply)
  next
    case (Suc j)
    then show ?thesis using Cons.IH[of j "Suc k" "putCoseNode (k, a) m0"] Cons.prems by simp
  qed
qed

lemma ciseNodeToCoseNode_index:
  "distinct xs \<Longrightarrow> i < length xs \<Longrightarrow> ciseNodeToCoseNode xs (xs ! i) = Some i"
  using putCoseNode_index[of xs i 0 Map.empty] by (simp add: ciseNodeToCoseNode_def)

lemma sameButLocation_refl: "sameButLocation ns ns"
  by (simp add: sameButLocation_def)

lemma sameButLocation_setLocation:
  assumes "sameButLocation ns ns1"
  shows "sameButLocation ns (setLocation n p ns1)"
  unfolding sameButLocation_def
proof (intro conjI allI)
  show "length (setLocation n p ns1) = length ns"
    using assms by (simp add: setLocation_nth sameButLocation_def)
  fix k
  have o: "(ns1 ! k)\<lparr>rect_x := rect_x (ns ! k), rect_y := rect_y (ns ! k)\<rparr> = ns ! k"
    using assms by (simp add: sameButLocation_def)
  show "(setLocation n p ns1 ! k)\<lparr>rect_x := rect_x (ns ! k), rect_y := rect_y (ns ! k)\<rparr> = ns ! k"
    using o by (auto simp: setLocation_nth)
qed

lemma sameButLocation_updateNonOnCircle:
  "sameButLocation ns ns1 \<Longrightarrow> sameButLocation ns (fold (updateNonOnCircle m loc) xs ns1)"
proof (induction xs arbitrary: ns1)
  case Nil
  then show ?case by simp
next
  case (Cons x xs)
  have "sameButLocation ns (updateNonOnCircle m loc x ns1)"
    using Cons.prems by (simp add: updateNonOnCircle_def sameButLocation_setLocation split: option.splits)
  then show ?case using Cons.IH by simp
qed

lemma sameButLocation_updateOnCircle:
  assumes "forEachE (updateOnCircle cs) xs ns1 = Inr ns2" "sameButLocation ns ns1"
  shows "sameButLocation ns ns2"
proof (rule forEachE_invariant[where P = "sameButLocation ns", OF assms(1) assms(2)])
  fix x u v
  assume "sameButLocation ns u" "updateOnCircle cs x u = Inr v"
  then show "sameButLocation ns v"
    using updateOnCircle_result[of cs x u v] sameButLocation_setLocation[of ns u] by auto
qed

lemma sameButLocation_field:
  assumes "sameButLocation ns ns'"
  shows "onCircleNodeExt (ns' ! k) = onCircleNodeExt (ns ! k)" "owner (ns' ! k) = owner (ns ! k)"
    "child (ns' ! k) = child (ns ! k)" "ID (ns' ! k) = ID (ns ! k)"
    "clusterID (ns' ! k) = clusterID (ns ! k)" "nedges (ns' ! k) = nedges (ns ! k)"
    "rect_width (ns' ! k) = rect_width (ns ! k)" "rect_height (ns' ! k) = rect_height (ns ! k)"
proof -
  have e: "(ns' ! k)\<lparr>rect_x := rect_x (ns ! k), rect_y := rect_y (ns ! k)\<rparr> = ns ! k"
    using assms by (simp add: sameButLocation_def)
  show "onCircleNodeExt (ns' ! k) = onCircleNodeExt (ns ! k)"
    using arg_cong[OF e, of onCircleNodeExt] by simp
  show "owner (ns' ! k) = owner (ns ! k)" using arg_cong[OF e, of owner] by simp
  show "child (ns' ! k) = child (ns ! k)" using arg_cong[OF e, of child] by simp
  show "ID (ns' ! k) = ID (ns ! k)" using arg_cong[OF e, of ID] by simp
  show "clusterID (ns' ! k) = clusterID (ns ! k)" using arg_cong[OF e, of clusterID] by simp
  show "nedges (ns' ! k) = nedges (ns ! k)" using arg_cong[OF e, of nedges] by simp
  show "rect_width (ns' ! k) = rect_width (ns ! k)" using arg_cong[OF e, of rect_width] by simp
  show "rect_height (ns' ! k) = rect_height (ns ! k)" using arg_cong[OF e, of rect_height] by simp
qed

lemma quotientEnd_reads: "quotientEnd (s\<lparr>step := a, phase := b\<rparr>) n = quotientEnd s n"
  by (simp add: quotientEnd_def split: option.splits graph_ref.splits)

lemma doStep2_reads:
  "coseEdgeStep (s\<lparr>step := a, phase := b\<rparr>) = coseEdgeStep s"
  "getAllEdges (s\<lparr>step := a, phase := b\<rparr>) = getAllEdges s"
proof -
  show "coseEdgeStep (s\<lparr>step := a, phase := b\<rparr>) = coseEdgeStep s"
  proof (intro ext)
    fix m e l
    show "coseEdgeStep (s\<lparr>step := a, phase := b\<rparr>) m e l = coseEdgeStep s m e l"
      unfolding coseEdgeStep_def quotientEnd_reads by (simp split: sum.splits)
  qed
  show "getAllEdges (s\<lparr>step := a, phase := b\<rparr>) = getAllEdges s"
    by (simp add: getAllEdges_def)
qed

lemma doStep2_result:
  assumes "doStep2 STEP_2 PHASE_OTHER runLayout s = Inr s'"
  obtains newCoSEEdges ns2 where
    "forEachE (coseEdgeStep s (ciseNodeToCoseNode (gmNonOnCircleNodes s))) (getAllEdges s) [] = Inr newCoSEEdges"
    and "forEachE (updateOnCircle (circles s)) (gmOnCircleNodes s)
          (fold (updateNonOnCircle (ciseNodeToCoseNode (gmNonOnCircleNodes s))
                   (runLayout (map (newCoSENode (nodes s)) (enumerate 0 (gmNonOnCircleNodes s))) newCoSEEdges))
             (gmNonOnCircleNodes s) (nodes s)) = Inr ns2"
    and "s' = s\<lparr>nodes := ns2, step := STEP_2, phase := PHASE_OTHER\<rparr>"
proof -
  from assms obtain es where
    1: "forEachE (coseEdgeStep s (ciseNodeToCoseNode (gmNonOnCircleNodes s))) (getAllEdges s) [] = Inr es"
    unfolding doStep2_def Let_def by (auto simp: doStep2_reads split: sum.splits)
  from assms 1 obtain ns2 where
    2: "forEachE (updateOnCircle (circles s)) (gmOnCircleNodes s)
          (fold (updateNonOnCircle (ciseNodeToCoseNode (gmNonOnCircleNodes s))
                   (runLayout (map (newCoSENode (nodes s)) (enumerate 0 (gmNonOnCircleNodes s))) es))
             (gmNonOnCircleNodes s) (nodes s)) = Inr ns2"
    and 3: "s' = s\<lparr>step := STEP_2, phase := PHASE_OTHER, nodes := ns2\<rparr>"
    unfolding doStep2_def Let_def by (auto simp: doStep2_reads split: sum.splits)
  have "s' = s\<lparr>nodes := ns2, step := STEP_2, phase := PHASE_OTHER\<rparr>" using 3 by simp
  then show ?thesis using that[OF 1 2] by simp
qed


text \<open>
  C10.  When \<open>doStep2\<close> returns, the layout is the one before but for its nodes and its
  step and phase markers; the nodes are the ones before but for their locations, so the
  extension records (circular index and angle) are the same; the circles are the same
  (their on-circle nodes in the same order, their radius and \<open>mayBeReversed\<close>).  On a
  layout as the builder leaves it, every non-on-circle node is at the location that the
  embedder gave to its node of the reduced graph, and every on-circle node is at its
  location before plus the new location of the parent of its owner.
\<close>

theorem doStep2_frame:
  assumes "doStep2 STEP_2 PHASE_OTHER runLayout s = Inr s'"
  shows "s' = s\<lparr>nodes := nodes s', step := STEP_2, phase := PHASE_OTHER\<rparr>
     \<and> circles s' = circles s
     \<and> length (nodes s') = length (nodes s)
     \<and> (\<forall>k. (nodes s' ! k)\<lparr>rect_x := rect_x (nodes s ! k), rect_y := rect_y (nodes s ! k)\<rparr>
             = nodes s ! k)
     \<and> (\<forall>k. onCircleNodeExt (nodes s' ! k) = onCircleNodeExt (nodes s ! k))
     \<and> (\<forall>c. onCircleNodes (circles s' ! c) = onCircleNodes (circles s ! c)
             \<and> radius (circles s' ! c) = radius (circles s ! c)
             \<and> mayBeReversed (circles s' ! c) = mayBeReversed (circles s ! c))
     \<and> (step2Ready s \<longrightarrow>
          (\<exists>newCoSEEdges.
              forEachE (coseEdgeStep s (ciseNodeToCoseNode (gmNonOnCircleNodes s))) (getAllEdges s) []
                = Inr newCoSEEdges
              \<and> (\<forall>i<length (gmNonOnCircleNodes s).
                    (rect_x (nodes s' ! (gmNonOnCircleNodes s ! i)),
                     rect_y (nodes s' ! (gmNonOnCircleNodes s ! i)))
                    = runLayout (map (newCoSENode (nodes s)) (enumerate 0 (gmNonOnCircleNodes s)))
                        newCoSEEdges i))
          \<and> (\<forall>n \<in> set (gmOnCircleNodes s).
                \<exists>c p. owner (nodes s ! n) = Some (CircleGraph c) \<and> parent (circles s ! c) = Some p
                  \<and> rect_x (nodes s' ! n) = rect_x (nodes s ! n) + rect_x (nodes s' ! p)
                  \<and> rect_y (nodes s' ! n) = rect_y (nodes s ! n) + rect_y (nodes s' ! p)))"
proof -
  let ?nonOn = "gmNonOnCircleNodes s" and ?on = "gmOnCircleNodes s"
  let ?m = "ciseNodeToCoseNode ?nonOn"
  from assms obtain newCoSEEdges ns2 where
    r1: "forEachE (coseEdgeStep s ?m) (getAllEdges s) [] = Inr newCoSEEdges"
    and r2: "forEachE (updateOnCircle (circles s)) ?on
          (fold (updateNonOnCircle ?m
                   (runLayout (map (newCoSENode (nodes s)) (enumerate 0 ?nonOn)) newCoSEEdges))
             ?nonOn (nodes s)) = Inr ns2"
    and r3: "s' = s\<lparr>nodes := ns2, step := STEP_2, phase := PHASE_OTHER\<rparr>"
    by (rule doStep2_result)
  let ?loc = "runLayout (map (newCoSENode (nodes s)) (enumerate 0 ?nonOn)) newCoSEEdges"
  let ?ns1 = "fold (updateNonOnCircle ?m ?loc) ?nonOn (nodes s)"
  have n2: "nodes s' = ns2" and c2: "circles s' = circles s" using r3 by simp_all
  have sb1: "sameButLocation (nodes s) ?ns1"
    by (rule sameButLocation_updateNonOnCircle[OF sameButLocation_refl])
  have sb2: "sameButLocation (nodes s) ns2"
    by (rule sameButLocation_updateOnCircle[OF r2 sb1])
  have f1: "s' = s\<lparr>nodes := nodes s', step := STEP_2, phase := PHASE_OTHER\<rparr>"
    using r3 by simp
  have f3: "length (nodes s') = length (nodes s)"
    using sb2 n2 by (simp add: sameButLocation_def)
  have f4: "\<forall>k. (nodes s' ! k)\<lparr>rect_x := rect_x (nodes s ! k), rect_y := rect_y (nodes s ! k)\<rparr>
             = nodes s ! k"
    using sb2 n2 by (simp add: sameButLocation_def)
  have f5: "\<forall>k. onCircleNodeExt (nodes s' ! k) = onCircleNodeExt (nodes s ! k)"
    using sameButLocation_field(1)[OF sb2] n2 by simp
  have f6: "\<forall>c. onCircleNodes (circles s' ! c) = onCircleNodes (circles s ! c)
             \<and> radius (circles s' ! c) = radius (circles s ! c)
             \<and> mayBeReversed (circles s' ! c) = mayBeReversed (circles s ! c)"
    using c2 by simp
  have f7: "(\<exists>newCoSEEdges.
              forEachE (coseEdgeStep s ?m) (getAllEdges s) [] = Inr newCoSEEdges
              \<and> (\<forall>i<length ?nonOn.
                    (rect_x (nodes s' ! (?nonOn ! i)), rect_y (nodes s' ! (?nonOn ! i)))
                    = runLayout (map (newCoSENode (nodes s)) (enumerate 0 ?nonOn)) newCoSEEdges i))
          \<and> (\<forall>n \<in> set ?on.
                \<exists>c p. owner (nodes s ! n) = Some (CircleGraph c) \<and> parent (circles s ! c) = Some p
                  \<and> rect_x (nodes s' ! n) = rect_x (nodes s ! n) + rect_x (nodes s' ! p)
                  \<and> rect_y (nodes s' ! n) = rect_y (nodes s ! n) + rect_y (nodes s' ! p))"
    if rdy: "step2Ready s"
  proof -
    have d1: "distinct ?nonOn" and d2: "distinct ?on" and dj: "set ?nonOn \<inter> set ?on = {}"
      and b1: "\<forall>n \<in> set ?nonOn. n < length (nodes s)" and b2: "\<forall>n \<in> set ?on. n < length (nodes s)"
      and pp: "\<forall>n \<in> set ?on. \<forall>c p.
            owner (nodes s ! n) = Some (CircleGraph c) \<longrightarrow> parent (circles s ! c) = Some p
            \<longrightarrow> p \<notin> set ?on"
      using rdy unfolding step2Ready_def by blast+
    have ow1: "\<And>k. owner (?ns1 ! k) = owner (nodes s ! k)"
      using sameButLocation_field(2)[OF sb1] by simp
    have l1: "length ?ns1 = length (nodes s)"
      by (rule fold_updateNonOnCircle_length)
    have pp1: "\<forall>n \<in> set ?on. \<forall>c p.
            owner (?ns1 ! n) = Some (CircleGraph c) \<longrightarrow> parent (circles s ! c) = Some p
            \<longrightarrow> p \<notin> set ?on"
      using pp unfolding ow1 .
    note loop2 = forEachE_updateOnCircle[OF r2 d2 pp1]
    have keep: "\<And>k. k \<notin> set ?on \<Longrightarrow> ns2 ! k = ?ns1 ! k" using loop2 by blast
    have v1: "\<forall>i<length ?nonOn.
                    (rect_x (nodes s' ! (?nonOn ! i)), rect_y (nodes s' ! (?nonOn ! i))) = ?loc i"
    proof (intro allI impI)
      fix i
      assume i: "i < length ?nonOn"
      let ?n = "?nonOn ! i"
      have mem: "?n \<in> set ?nonOn" using i by simp
      then have non: "?n \<notin> set ?on" using dj by blast
      have lt: "?n < length (nodes s)" using b1 mem by blast
      have mi: "?m ?n = Some i" by (rule ciseNodeToCoseNode_index[OF d1 i])
      have "ns2 ! ?n = ?ns1 ! ?n" by (rule keep[OF non])
      also have "\<dots> = (nodes s ! ?n)\<lparr>rect_x := fst (?loc i), rect_y := snd (?loc i)\<rparr>"
        using mem lt mi by (simp add: fold_updateNonOnCircle_nth)
      finally show "(rect_x (nodes s' ! ?n), rect_y (nodes s' ! ?n)) = ?loc i"
        unfolding n2 by simp
    qed
    have v2: "\<forall>n \<in> set ?on.
                \<exists>c p. owner (nodes s ! n) = Some (CircleGraph c) \<and> parent (circles s ! c) = Some p
                  \<and> rect_x (nodes s' ! n) = rect_x (nodes s ! n) + rect_x (nodes s' ! p)
                  \<and> rect_y (nodes s' ! n) = rect_y (nodes s ! n) + rect_y (nodes s' ! p)"
    proof
      fix n
      assume n: "n \<in> set ?on"
      from loop2 n obtain c p where
        o: "owner (?ns1 ! n) = Some (CircleGraph c)" and pa: "parent (circles s ! c) = Some p"
        and e: "ns2 ! n = (if n < length ?ns1
                        then (?ns1 ! n)\<lparr>rect_x := rect_x (?ns1 ! n) + rect_x (?ns1 ! p),
                                     rect_y := rect_y (?ns1 ! n) + rect_y (?ns1 ! p)\<rparr>
                        else ?ns1 ! n)"
        by blast
      have o': "owner (nodes s ! n) = Some (CircleGraph c)" using o unfolding ow1 .
      have lt: "n < length ?ns1" using b2 n l1 by simp
      have "n \<notin> set ?nonOn" using dj n by blast
      then have same: "?ns1 ! n = nodes s ! n" by (simp add: fold_updateNonOnCircle_nth)
      have "p \<notin> set ?on" using pp n o' pa by blast
      then have pk: "ns2 ! p = ?ns1 ! p" by (rule keep)
      have "ns2 ! n = (nodes s ! n)\<lparr>rect_x := rect_x (nodes s ! n) + rect_x (ns2 ! p),
                                     rect_y := rect_y (nodes s ! n) + rect_y (ns2 ! p)\<rparr>"
        using e lt unfolding same pk by simp
      then have "rect_x (nodes s' ! n) = rect_x (nodes s ! n) + rect_x (nodes s' ! p)
                  \<and> rect_y (nodes s' ! n) = rect_y (nodes s ! n) + rect_y (nodes s' ! p)"
        unfolding n2 by simp
      then show "\<exists>c p. owner (nodes s ! n) = Some (CircleGraph c) \<and> parent (circles s ! c) = Some p
                  \<and> rect_x (nodes s' ! n) = rect_x (nodes s ! n) + rect_x (nodes s' ! p)
                  \<and> rect_y (nodes s' ! n) = rect_y (nodes s ! n) + rect_y (nodes s' ! p)"
        using o' pa by blast
    qed
    show ?thesis using r1 v1 v2 by blast
  qed
  show ?thesis using f1 c2 f3 f4 f5 f6 f7 by blast
qed

lemma ex_edges:
  "forEachE (coseEdgeStep exLayout (ciseNodeToCoseNode (gmNonOnCircleNodes exLayout))) (getAllEdges exLayout) []
     = Inr [((0, 1), [1]), ((1, 2), [2])]"
  by (simp add: coseEdgeStep_def quotientEnd_def getAllEdges_def ciseNodeToCoseNode_def
      putCoseNode_def exLayout_def exPlaceholder_def exMember_def exUnclustered_def exCircle_def
      enumerate_eq_zip upt_rec)

lemma ex_map:
  "ciseNodeToCoseNode [0, 3, 5] 0 = Some 0"
  "ciseNodeToCoseNode [0, 3, 5] 3 = Some 1"
  "ciseNodeToCoseNode [0, 3, 5] 5 = Some 2"
  by (simp_all add: ciseNodeToCoseNode_def putCoseNode_def enumerate_eq_zip upt_rec)

lemma ex_loop1:
  "fold (updateNonOnCircle (ciseNodeToCoseNode (gmNonOnCircleNodes exLayout)) (exRunLayout a b))
        (gmNonOnCircleNodes exLayout) (nodes exLayout)
   = [(exPlaceholder 0 0)\<lparr>rect_x := 0, rect_y := 50\<rparr>, exMember ''a'' 0 0 [0],
      exMember ''b'' 0 0 [0, 1], (exPlaceholder 1 1)\<lparr>rect_x := 100, rect_y := 50\<rparr>,
      exMember ''c'' 1 1 [1, 2], (exUnclustered ''d'' [2])\<lparr>rect_x := 200, rect_y := 50\<rparr>]"
  by (simp add: exLayout_def updateNonOnCircle_def setLocation_def ex_map exRunLayout_def)

lemma ex_loop2:
  "forEachE (updateOnCircle (circles exLayout)) (gmOnCircleNodes exLayout)
     [(exPlaceholder 0 0)\<lparr>rect_x := 0, rect_y := 50\<rparr>, exMember ''a'' 0 0 [0],
      exMember ''b'' 0 0 [0, 1], (exPlaceholder 1 1)\<lparr>rect_x := 100, rect_y := 50\<rparr>,
      exMember ''c'' 1 1 [1, 2], (exUnclustered ''d'' [2])\<lparr>rect_x := 200, rect_y := 50\<rparr>]
   = Inr [(exPlaceholder 0 0)\<lparr>rect_x := 0, rect_y := 50\<rparr>,
          (exMember ''a'' 0 0 [0])\<lparr>rect_x := 8, rect_y := 67\<rparr>,
          (exMember ''b'' 0 0 [0, 1])\<lparr>rect_x := 8, rect_y := 67\<rparr>,
          (exPlaceholder 1 1)\<lparr>rect_x := 100, rect_y := 50\<rparr>,
          (exMember ''c'' 1 1 [1, 2])\<lparr>rect_x := 108, rect_y := 67\<rparr>,
          (exUnclustered ''d'' [2])\<lparr>rect_x := 200, rect_y := 50\<rparr>]"
  by (simp add: exLayout_def updateOnCircle_def setLocation_def exMember_def exPlaceholder_def
      exCircle_def)

lemma doStep2_intro:
  assumes "forEachE (coseEdgeStep s (ciseNodeToCoseNode (gmNonOnCircleNodes s))) (getAllEdges s) [] = Inr es"
    and "forEachE (updateOnCircle (circles s)) (gmOnCircleNodes s)
          (fold (updateNonOnCircle (ciseNodeToCoseNode (gmNonOnCircleNodes s))
                   (runLayout (map (newCoSENode (nodes s)) (enumerate 0 (gmNonOnCircleNodes s))) es))
             (gmNonOnCircleNodes s) (nodes s)) = Inr ns2"
  shows "doStep2 a b runLayout s = Inr (s\<lparr>step := a, phase := b, nodes := ns2\<rparr>)"
  by (simp add: doStep2_def Let_def doStep2_reads assms)

lemma doStep2_example:
  "doStep2 (Some 2) (Some 3) exRunLayout exLayout
     = Inr (exLayout\<lparr>step := Some 2, phase := Some 3,
              nodes := [(exPlaceholder 0 0)\<lparr>rect_x := 0, rect_y := 50\<rparr>,
          (exMember ''a'' 0 0 [0])\<lparr>rect_x := 8, rect_y := 67\<rparr>,
          (exMember ''b'' 0 0 [0, 1])\<lparr>rect_x := 8, rect_y := 67\<rparr>,
          (exPlaceholder 1 1)\<lparr>rect_x := 100, rect_y := 50\<rparr>,
          (exMember ''c'' 1 1 [1, 2])\<lparr>rect_x := 108, rect_y := 67\<rparr>,
          (exUnclustered ''d'' [2])\<lparr>rect_x := 200, rect_y := 50\<rparr>]\<rparr>)"
proof (rule doStep2_intro[OF ex_edges])
  show "forEachE (updateOnCircle (circles exLayout)) (gmOnCircleNodes exLayout)
     (fold (updateNonOnCircle (ciseNodeToCoseNode (gmNonOnCircleNodes exLayout))
             (exRunLayout (map (newCoSENode (nodes exLayout)) (enumerate 0 (gmNonOnCircleNodes exLayout)))
               [((0, 1), [1]), ((1, 2), [2])]))
       (gmNonOnCircleNodes exLayout) (nodes exLayout)) =
    Inr [(exPlaceholder 0 0)\<lparr>rect_x := 0, rect_y := 50\<rparr>,
          (exMember ''a'' 0 0 [0])\<lparr>rect_x := 8, rect_y := 67\<rparr>,
          (exMember ''b'' 0 0 [0, 1])\<lparr>rect_x := 8, rect_y := 67\<rparr>,
          (exPlaceholder 1 1)\<lparr>rect_x := 100, rect_y := 50\<rparr>,
          (exMember ''c'' 1 1 [1, 2])\<lparr>rect_x := 108, rect_y := 67\<rparr>,
          (exUnclustered ''d'' [2])\<lparr>rect_x := 200, rect_y := 50\<rparr>]"
    unfolding ex_loop1 by (rule ex_loop2)
qed

lemma step2Ready_example: "step2Ready exLayout"
  by (simp add: step2Ready_def exLayout_def exPlaceholder_def exMember_def exUnclustered_def exCircle_def)

text \<open>
  In the worked example, with the marker values 2 and 3: the three non-on-circle nodes
  0, 3 and 5 go to (0, 50), (100, 50) and (200, 50), and the on-circle nodes 1, 2
  (parent 0) and 4 (parent 3), which were at (8, 17), go to (8, 67) and (108, 67).
\<close>

theorem doStep2_frame_witness:
  "step2Ready exLayout
   \<and> (\<exists>s'. doStep2 (Some 2) (Some 3) exRunLayout exLayout = Inr s'
         \<and> s' = exLayout\<lparr>nodes := nodes s', step := Some 2, phase := Some 3\<rparr>
         \<and> circles s' = circles exLayout
         \<and> length (nodes s') = length (nodes exLayout)
         \<and> onCircleNodeExt (nodes s' ! 4) = onCircleNodeExt (nodes exLayout ! 4)
         \<and> map (\<lambda>n. (rect_x n, rect_y n)) (nodes s')
             = [(0, 50), (8, 67), (8, 67), (100, 50), (108, 67), (200, 50)]
         \<and> rect_x (nodes s' ! 4) = rect_x (nodes exLayout ! 4) + rect_x (nodes s' ! 3))"
proof -
  obtain s' where run: "doStep2 (Some 2) (Some 3) exRunLayout exLayout = Inr s'"
    and s': "s' = exLayout\<lparr>step := Some 2, phase := Some 3,
              nodes := [(exPlaceholder 0 0)\<lparr>rect_x := 0, rect_y := 50\<rparr>,
          (exMember ''a'' 0 0 [0])\<lparr>rect_x := 8, rect_y := 67\<rparr>,
          (exMember ''b'' 0 0 [0, 1])\<lparr>rect_x := 8, rect_y := 67\<rparr>,
          (exPlaceholder 1 1)\<lparr>rect_x := 100, rect_y := 50\<rparr>,
          (exMember ''c'' 1 1 [1, 2])\<lparr>rect_x := 108, rect_y := 67\<rparr>,
          (exUnclustered ''d'' [2])\<lparr>rect_x := 200, rect_y := 50\<rparr>]\<rparr>"
    using doStep2_example by simp
  have loc: "map (\<lambda>n. (rect_x n, rect_y n)) (nodes s')
             = [(0, 50), (8, 67), (8, 67), (100, 50), (108, 67), (200, 50)]"
    unfolding s' by simp
  note t = doStep2_frame[OF run]
  note f1 = t[THEN conjunct1]
  note f2 = t[THEN conjunct2, THEN conjunct1]
  note f3 = t[THEN conjunct2, THEN conjunct2, THEN conjunct1]
  note f5 = t[THEN conjunct2, THEN conjunct2, THEN conjunct2, THEN conjunct2, THEN conjunct1]
  note f7 = t[THEN conjunct2, THEN conjunct2, THEN conjunct2, THEN conjunct2, THEN conjunct2,
      THEN conjunct2, THEN mp, OF step2Ready_example, THEN conjunct2]
  have on: "4 \<in> set (gmOnCircleNodes exLayout)" by (simp add: exLayout_def)
  from f7 on obtain c p where
    o: "owner (nodes exLayout ! 4) = Some (CircleGraph c)" and pa: "parent (circles exLayout ! c) = Some p"
    and x: "rect_x (nodes s' ! 4) = rect_x (nodes exLayout ! 4) + rect_x (nodes s' ! p)"
    by blast
  have "c = 1" using o by (simp add: exLayout_def exMember_def)
  then have "p = 3" using pa by (simp add: exLayout_def exCircle_def)
  then have x3: "rect_x (nodes s' ! 4) = rect_x (nodes exLayout ! 4) + rect_x (nodes s' ! 3)"
    using x by simp
  show ?thesis
    by (intro conjI exI[of _ s']) (rule step2Ready_example run f1 f2 f3 f5[rule_format] loc x3)+
qed

section \<open>Properties of the flag mayBeReversed\<close>

lemma flagsMono_refl: "flagsMono s s"
  by (simp add: flagsMono_def)

lemma flagsMono_trans: "flagsMono s t \<Longrightarrow> flagsMono t u \<Longrightarrow> flagsMono s u"
  unfolding flagsMono_def by (meson le_trans less_le_trans)

lemma flagsMono_same: "circles s' = circles s \<Longrightarrow> flagsMono s s'"
  by (simp add: flagsMono_def)

lemma flagsMono_append: "circles s' = circles s @ xs \<Longrightarrow> flagsMono s s'"
  by (simp add: flagsMono_def nth_append)

lemma flagsMono_update:
  assumes "circles s' = (circles s)[c := x]"
    "\<not> mayBeReversed (circles s ! c) \<Longrightarrow> \<not> mayBeReversed x"
  shows "flagsMono s s'"
  unfolding flagsMono_def
proof (intro conjI allI impI)
  show "length (circles s) \<le> length (circles s')" using assms(1) by simp
  fix d
  assume d: "d < length (circles s)" and n: "\<not> mayBeReversed (circles s ! d)"
  show "\<not> mayBeReversed (circles s' ! d)"
    using assms d n by (cases "d = c") simp_all
qed

lemma flagsMono_addMember:
  assumes "addMember cyMap i c nodeID (m, s) = Inr (m', s')"
  shows "flagsMono s s'"
proof -
  from addMember_result[OF assms] have
    "circles s' = (circles s)[c := (circles s ! c)
                   \<lparr>onCircleNodes := onCircleNodes (circles s ! c) @ [length (nodes s)],
                    gnodes := gnodes (circles s ! c) @ [length (nodes s)],
                    inNodes := inNodes (circles s ! c) @ [length (nodes s)]\<rparr>]"
    by auto
  then show ?thesis by (rule flagsMono_update) simp
qed

lemma flagsMono_addCluster:
  assumes "addCluster cyMap ic (m, s) = Inr b'"
  shows "flagsMono s (snd b')"
proof -
  obtain i cluster where ic: "ic = (i, cluster)" by (cases ic)
  let ?s1 = "addClusterNode (int i) s"
  have 1: "flagsMono s ?s1"
    by (rule flagsMono_append[where xs = "[(new_CiSECircle (Some (length (nodes s))))
          \<lparr>margin := margin (new_CiSECircle (Some (length (nodes s)))) + 15\<rparr>]"])
       (simp add: addClusterNode_def Let_def)
  have run: "forEachE (addMember cyMap (int i) (length (circles s))) cluster (m, ?s1) = Inr b'"
    using assms ic by (simp add: addCluster_def)
  have "flagsMono s (snd b')"
  proof (rule forEachE_invariant[where P = "\<lambda>b. flagsMono s (snd b)", OF run])
    show "flagsMono s (snd (m, ?s1))" using 1 by simp
  next
    fix x t u
    assume p: "flagsMono s (snd t)" and st: "addMember cyMap (int i) (length (circles s)) x t = Inr u"
    obtain m1 s1 where t: "t = (m1, s1)" by (cases t)
    obtain m2 s2 where u: "u = (m2, s2)" by (cases u)
    have "flagsMono s1 s2" using flagsMono_addMember[of cyMap _ _ x m1 s1 m2 s2] st t u by simp
    then show "flagsMono s (snd u)" using p t u flagsMono_trans by auto
  qed
  then show ?thesis .
qed

lemma flagsMono_clusters:
  assumes "forEachE (addCluster cyMap) ics b = Inr b'"
  shows "flagsMono (snd b) (snd b')"
proof (rule forEachE_invariant[where P = "\<lambda>t. flagsMono (snd b) (snd t)", OF assms])
  show "flagsMono (snd b) (snd b)" by (rule flagsMono_refl)
next
  fix x t u
  assume p: "flagsMono (snd b) (snd t)" and st: "addCluster cyMap x t = Inr u"
  obtain m1 s1 where t: "t = (m1, s1)" by (cases t)
  have "flagsMono s1 (snd u)" using flagsMono_addCluster[of cyMap x m1 s1 u] st t by simp
  then show "flagsMono (snd b) (snd u)" using p t flagsMono_trans by auto
qed

lemma flagsMono_unclustered:
  "circles (snd (fold (addUnclustered clusters) ns b)) = circles (snd b)"
proof (induction ns arbitrary: b)
  case Nil
  then show ?case by simp
next
  case (Cons a ns)
  have "circles (snd (addUnclustered clusters a b)) = circles (snd b)"
    by (cases b) (simp add: addUnclustered_def Let_def)
  then show ?case using Cons.IH[of "addUnclustered clusters a b"] by simp
qed

lemma sameFlags_graph_add_edge:
  "flagsMono s (graph_add_edge g e sn tn s)"
proof (cases g)
  case RootGraph
  then show ?thesis by (intro flagsMono_same) (simp add: graph_add_edge_def Let_def)
next
  case (CircleGraph c)
  have "circles (graph_add_edge g e sn tn s)
      = (circles s)[c := (circles s ! c)\<lparr>gedges := gedges (circles s ! c) @ [e]\<rparr>]"
    using CircleGraph by (simp add: graph_add_edge_def Let_def)
  then show ?thesis by (rule flagsMono_update) simp
qed

lemma flagsMono_addEdge:
  assumes "addEdge e (m, s) = Inr (m', s')"
  shows "flagsMono s s'"
proof -
  obtain sn tn where r: "m (cy_source e) = Some sn" "m (cy_target e) = Some tn"
    using assms by (auto simp: addEdge_def split: option.splits)
  let ?k = "length (edges s)"
  show ?thesis
  proof (cases "sn = tn")
    case True
    then show ?thesis using assms r by (simp add: addEdge_def flagsMono_refl)
  next
    case False
    from assms r False consider
      g x where "s' = graph_add_edge g ?k sn tn (s\<lparr>edges := edges s @ [x]\<rparr>)"
      | x where "gm_add_edge ?k sn tn (s\<lparr>edges := edges s @ [x]\<rparr>) = Inr s'"
      by (auto simp: addEdge_def Let_def split: if_splits option.splits sum.splits)
    then show ?thesis
    proof cases
      case 1
      have a: "flagsMono s (s\<lparr>edges := edges s @ [x]\<rparr>)" by (rule flagsMono_same) simp
      show ?thesis unfolding 1 by (rule flagsMono_trans[OF a sameFlags_graph_add_edge])
    next
      case 2
      let ?s1 = "s\<lparr>edges := edges s @ [x]\<rparr>"
      have a: "flagsMono s ?s1" by (rule flagsMono_same) simp
      from 2 obtain g h where gh: "owner (nodes ?s1 ! sn) = Some g" "owner (nodes ?s1 ! tn) = Some h"
        by (auto simp: gm_add_edge_def split: option.splits)
      have "flagsMono ?s1 s'"
      proof (cases "g = h")
        case True
        then have "s' = graph_add_edge g ?k sn tn ?s1" using 2 gh by (simp add: gm_add_edge_def)
        then show ?thesis using sameFlags_graph_add_edge by simp
      next
        case False
        then have "circles s' = circles ?s1" using 2 gh by (auto simp: gm_add_edge_def)
        then show ?thesis by (rule flagsMono_same)
      qed
      then show ?thesis using a flagsMono_trans by blast
    qed
  qed
qed

lemma flagsMono_edges:
  assumes "forEachE addEdge es b = Inr b'"
  shows "flagsMono (snd b) (snd b')"
proof (rule forEachE_invariant[where P = "\<lambda>t. flagsMono (snd b) (snd t)", OF assms])
  show "flagsMono (snd b) (snd b)" by (rule flagsMono_refl)
next
  fix x t u
  assume p: "flagsMono (snd b) (snd t)" and st: "addEdge x t = Inr u"
  obtain m1 s1 where t: "t = (m1, s1)" by (cases t)
  obtain m2 s2 where u: "u = (m2, s2)" by (cases u)
  have "flagsMono s1 s2" using flagsMono_addEdge[of x m1 s1 m2 s2] st t u by simp
  then show "flagsMono (snd b) (snd u)" using p t u flagsMono_trans by auto
qed

lemma flagsMono_moveToOutNodes:
  assumes "moveToOutNodes n s = Inr s'"
  shows "flagsMono s s'"
proof -
  from moveToOutNodes_result[OF assms] obtain c where
    s': "s' = (if n \<in> set (inNodes (circles s ! c))
           then s\<lparr>circles := (circles s)[c := (circles s ! c)\<lparr>inNodes := remove1 n (inNodes (circles s ! c)),
                                                              outNodes := outNodes (circles s ! c) @ [n]\<rparr>]\<rparr>
           else s)"
    by blast
  show ?thesis
  proof (cases "n \<in> set (inNodes (circles s ! c))")
    case True
    then have "circles s' = (circles s)[c := (circles s ! c)\<lparr>inNodes := remove1 n (inNodes (circles s ! c)),
                                                              outNodes := outNodes (circles s ! c) @ [n]\<rparr>]"
      using s' by simp
    then show ?thesis by (rule flagsMono_update) simp
  next
    case False
    then show ?thesis using s' by (simp add: flagsMono_refl)
  qed
qed

lemma flagsMono_determineOutNodes:
  assumes "determineOutNodes e s = Inr s'"
  shows "flagsMono s s'"
proof -
  let ?sn = "source (edges s ! e)" and ?tn = "target (edges s ! e)"
  from assms obtain s1 where
    1: "(if clusterID (nodes s ! ?sn) \<noteq> Some (- 1) then moveToOutNodes ?sn s else Inr s) = Inr s1"
    and 2: "(if clusterID (nodes s ! ?tn) \<noteq> Some (- 1) then moveToOutNodes ?tn s1 else Inr s1) = Inr s'"
    unfolding determineOutNodes_def Let_def by (auto split: sum.splits)
  have a: "flagsMono s s1"
    using 1 flagsMono_moveToOutNodes[of ?sn s s1] by (auto simp: flagsMono_refl split: if_splits)
  have b: "flagsMono s1 s'"
    using 2 flagsMono_moveToOutNodes[of ?tn s1 s'] by (auto simp: flagsMono_refl split: if_splits)
  show ?thesis by (rule flagsMono_trans[OF a b])
qed

lemma flagsMono_outNodes:
  assumes "forEachE determineOutNodes js s = Inr s'"
  shows "flagsMono s s'"
proof (rule forEachE_invariant[where P = "flagsMono s", OF assms])
  show "flagsMono s s" by (rule flagsMono_refl)
next
  fix x t u
  assume "flagsMono s t" "determineOutNodes x t = Inr u"
  then show "flagsMono s u" using flagsMono_determineOutNodes flagsMono_trans by blast
qed

lemma flagsMono_convertToClusteredGraph:
  assumes "convertToClusteredGraph ns es clusters s = Inr (m, s')"
  shows "flagsMono s s'"
proof -
  from assms obtain b1 m2 s2 where
    p1: "forEachE (addCluster (idToCytoscapeNode ns)) (enumerate 0 clusters) (Map.empty, s) = Inr b1"
    and p3: "forEachE addEdge es (fold (addUnclustered clusters) ns b1) = Inr (m2, s2)"
    and p5: "forEachE determineOutNodes (gmEdges s2) (populateReferences s2) = Inr s'"
    unfolding convertToClusteredGraph_def by (auto split: sum.splits prod.splits)
  have 1: "flagsMono s (snd b1)" using flagsMono_clusters[OF p1] by simp
  let ?b2 = "fold (addUnclustered clusters) ns b1"
  have 2: "flagsMono (snd b1) (snd ?b2)"
    by (rule flagsMono_same) (rule flagsMono_unclustered)
  have 3: "flagsMono (snd ?b2) s2" using flagsMono_edges[OF p3] by simp
  have 4: "flagsMono s2 (populateReferences s2)"
    by (rule flagsMono_same) (simp add: populateReferences_def)
  have 5: "flagsMono (populateReferences s2) s'" by (rule flagsMono_outNodes[OF p5])
  show ?thesis
    by (rule flagsMono_trans[OF flagsMono_trans[OF flagsMono_trans[OF flagsMono_trans[OF 1 2] 3] 4] 5])
qed

lemma flagsMono_doStep2:
  assumes "doStep2 a b runLayout s = Inr s'"
  shows "flagsMono s s'"
proof -
  from assms obtain newCoSEEdges ns2 where
    "s' = s\<lparr>nodes := ns2, step := a, phase := b\<rparr>"
    by (rule doStep2_result)
  then show ?thesis by (intro flagsMono_same) simp
qed

lemma prepareCircle_mono:
  "\<not> mayBeReversed c \<Longrightarrow> \<not> mayBeReversed (prepareCircle ns es c)"
  by (simp add: prepareCircle_def Let_def computeOrderMatrix_def setMayNotBeReversed_def
      getInterClusterEdges_memo)

lemma flagsMono_prepareNode: "flagsMono s (prepareNode n s)"
proof (cases "child (nodes s ! n)")
  case None
  then show ?thesis by (simp add: prepareNode_def flagsMono_refl)
next
  case (Some c)
  then have "circles (prepareNode n s) = (circles s)[c := prepareCircle (nodes s) (edges s) (circles s ! c)]"
    by (simp add: prepareNode_def)
  then show ?thesis by (rule flagsMono_update) (rule prepareCircle_mono)
qed

lemma flagsMono_prepare: "flagsMono s (prepareCirclesForReversal s)"
proof -
  have "flagsMono s (fold prepareNode ns s)" for ns
  proof (induction ns arbitrary: s)
    case Nil
    then show ?case by (simp add: flagsMono_refl)
  next
    case (Cons n ns)
    show ?case using flagsMono_trans[OF flagsMono_prepareNode[of s n] Cons.IH[of "prepareNode n s"]]
      by simp
  qed
  then show ?thesis by (simp add: prepareCirclesForReversal_def)
qed

lemma layoutOp_flagsMono: "layoutOp s s' \<Longrightarrow> flagsMono s s'"
proof (induction rule: layoutOp.induct)
  case (builder ns es clusters s m s')
  then show ?case by (rule flagsMono_convertToClusteredGraph)
next
  case (step2 a b runLayout s s')
  then show ?case by (rule flagsMono_doStep2)
next
  case (prepare s)
  show ?case by (rule flagsMono_prepare)
next
  case (circleOp c s op)
  show ?case
    by (rule flagsMono_update[where c = c and x = "circle_apply (nodes s) (edges s) op (circles s ! c)"])
       (simp_all add: circle_apply_keeps_not_reversible)
next
  case (nodeWrites s ns)
  show ?case by (rule flagsMono_same) simp
next
  case (markers s a b)
  show ?case by (rule flagsMono_same) simp
qed

lemma layoutOps_flagsMono: "layoutOp\<^sup>*\<^sup>* s s' \<Longrightarrow> flagsMono s s'"
proof (induction rule: rtranclp_induct)
  case base
  show ?case by (rule flagsMono_refl)
next
  case (step t u)
  then show ?case using layoutOp_flagsMono flagsMono_trans by blast
qed

text \<open>
  Claim C9. A circle is constructed with \<open>mayBeReversed\<close> true; \<open>setMayNotBeReversed\<close> sets
  it to false; every other operation of \<open>CiSECircle.js\<close> leaves the flag as it is; and
  along any sequence of operations on a layout (the builder, Step 2, the preparation for
  reversal, any operation on a circle), a circle whose flag is false is still there with
  its flag false.
\<close>

theorem mayBeReversed_monotone:
  "mayBeReversed (new_CiSECircle p)
   \<and> \<not> mayBeReversed (setMayNotBeReversed c0)
   \<and> (op \<noteq> SetMayNotBeReversed \<longrightarrow>
        mayBeReversed (circle_apply ns es op c0) = mayBeReversed c0)
   \<and> (layoutOp\<^sup>*\<^sup>* s s' \<longrightarrow> c < length (circles s) \<longrightarrow> \<not> mayBeReversed (circles s ! c) \<longrightarrow>
        c < length (circles s') \<and> \<not> mayBeReversed (circles s' ! c))"
proof (intro conjI impI)
  show "mayBeReversed (new_CiSECircle p)" by (simp add: new_CiSECircle_def)
  show "\<not> mayBeReversed (setMayNotBeReversed c0)" by (simp add: setMayNotBeReversed_def)
next
  assume "op \<noteq> SetMayNotBeReversed"
  then show "mayBeReversed (circle_apply ns es op c0) = mayBeReversed c0"
    by (cases op)
       (simp_all add: setRadius_def computeOrderMatrix_def getInterClusterEdges_memo
          getIntraClusterEdges_def Let_def split: option.splits)
next
  assume a: "layoutOp\<^sup>*\<^sup>* s s'" "c < length (circles s)" "\<not> mayBeReversed (circles s ! c)"
  from a(1) have "flagsMono s s'" by (rule layoutOps_flagsMono)
  then show "c < length (circles s')" using a(2) by (simp add: flagsMono_def)
next
  assume a: "layoutOp\<^sup>*\<^sup>* s s'" "c < length (circles s)" "\<not> mayBeReversed (circles s ! c)"
  from a(1) have "flagsMono s s'" by (rule layoutOps_flagsMono)
  then show "\<not> mayBeReversed (circles s' ! c)" using a(2,3) by (simp add: flagsMono_def)
qed

text \<open>
  The worked example with its circle 1 marked non-reversible, then prepared for reversal
  twice: the circle is still there and still non-reversible.
\<close>

theorem mayBeReversed_monotone_witness:
  "mayBeReversed (new_CiSECircle (Some 3))
   \<and> \<not> mayBeReversed (setMayNotBeReversed (exCircle 3 [4] [] [] [4]))
   \<and> ComputeOrderMatrix \<noteq> SetMayNotBeReversed
   \<and> mayBeReversed (circle_apply (nodes exLayout) (edges exLayout) ComputeOrderMatrix
                      (exCircle 3 [4] [] [] [4]))
       = mayBeReversed (exCircle 3 [4] [] [] [4])
   \<and> layoutOp\<^sup>*\<^sup>*
        (exLayout\<lparr>circles := (circles exLayout)
           [1 := circle_apply (nodes exLayout) (edges exLayout) SetMayNotBeReversed
                   (circles exLayout ! 1)]\<rparr>)
        (prepareCirclesForReversal (prepareCirclesForReversal
           (exLayout\<lparr>circles := (circles exLayout)
              [1 := circle_apply (nodes exLayout) (edges exLayout) SetMayNotBeReversed
                      (circles exLayout ! 1)]\<rparr>)))
   \<and> 1 < length (circles (exLayout\<lparr>circles := (circles exLayout)
           [1 := circle_apply (nodes exLayout) (edges exLayout) SetMayNotBeReversed
                   (circles exLayout ! 1)]\<rparr>))
   \<and> \<not> mayBeReversed (circles (exLayout\<lparr>circles := (circles exLayout)
           [1 := circle_apply (nodes exLayout) (edges exLayout) SetMayNotBeReversed
                   (circles exLayout ! 1)]\<rparr>) ! 1)
   \<and> 1 < length (circles (prepareCirclesForReversal (prepareCirclesForReversal
           (exLayout\<lparr>circles := (circles exLayout)
              [1 := circle_apply (nodes exLayout) (edges exLayout) SetMayNotBeReversed
                      (circles exLayout ! 1)]\<rparr>))))
   \<and> \<not> mayBeReversed (circles (prepareCirclesForReversal (prepareCirclesForReversal
           (exLayout\<lparr>circles := (circles exLayout)
              [1 := circle_apply (nodes exLayout) (edges exLayout) SetMayNotBeReversed
                      (circles exLayout ! 1)]\<rparr>))) ! 1)"
proof -
  let ?s = "exLayout\<lparr>circles := (circles exLayout)
           [1 := circle_apply (nodes exLayout) (edges exLayout) SetMayNotBeReversed
                   (circles exLayout ! 1)]\<rparr>"
  let ?t = "prepareCirclesForReversal (prepareCirclesForReversal ?s)"
  have one: "layoutOp ?s (prepareCirclesForReversal ?s)" by (rule layoutOp.prepare)
  have two: "layoutOp (prepareCirclesForReversal ?s) ?t" by (rule layoutOp.prepare)
  have chain: "layoutOp\<^sup>*\<^sup>* ?s ?t"
    using one two by (rule converse_rtranclp_into_rtranclp[OF _ r_into_rtranclp])
  have len: "1 < length (circles ?s)" by (simp add: exLayout_def)
  have flag: "\<not> mayBeReversed (circles ?s ! 1)"
    by (simp add: exLayout_def setMayNotBeReversed_def)
  have ne: "ComputeOrderMatrix \<noteq> SetMayNotBeReversed" by simp
  note t = mayBeReversed_monotone[of "Some 3" "exCircle 3 [4] [] [] [4]" ComputeOrderMatrix
      "nodes exLayout" "edges exLayout" ?s ?t 1]
  note w1 = t[THEN conjunct1]
  note w2 = t[THEN conjunct2, THEN conjunct1]
  note w3 = t[THEN conjunct2, THEN conjunct2, THEN conjunct1, THEN mp, OF ne]
  note w4 = t[THEN conjunct2, THEN conjunct2, THEN conjunct2, THEN mp, OF chain, THEN mp, OF len,
      THEN mp, OF flag]
  show ?thesis
    by (intro conjI) (rule w1 w2 ne w3 chain len flag w4[THEN conjunct1] w4[THEN conjunct2])+
qed

end
